theory Spec2Isabelle
  imports Main "HOL-Library.Word" "HOL-Library.Sublist"
begin

unbundle bit_operations_syntax

section \<open>djifix: repairing interrupted DJI recordings\<close>

text \<open>
  A shallow embedding of \<^verbatim>\<open>djifix.c\<close> (version 2016-04-19).  The input file is a list
  of bytes with a read position and the end-of-file indicator of the C stream; the output
  file is the list of bytes written so far.  \<^verbatim>\<open>unsigned\<close> is a 32-bit word,
  \<^verbatim>\<open>unsigned char\<close> an 8-bit word, \<^verbatim>\<open>long\<close> (file offsets) an unbounded integer.
\<close>

type_synonym byte = "8 word"
type_synonym u32 = "32 word"

subsection \<open>The input stream\<close>

record FILE =
  bytes :: "byte list"
  pos :: nat
  eof :: bool

definition fopen :: "byte list \<Rightarrow> FILE" where
  "fopen input = \<lparr>bytes = input, pos = 0, eof = False\<rparr>"

text \<open>
  \<^verbatim>\<open>fgetc\<close>: when the end-of-file indicator is set or no byte is left, the indicator is
  set and \<^verbatim>\<open>EOF\<close> (here \<open>None\<close>) is returned; otherwise the next byte is returned and
  the position advances.
\<close>

definition fgetc :: "FILE \<Rightarrow> byte option \<times> FILE" where
  "fgetc fid =
     (if eof fid \<or> length (bytes fid) \<le> pos fid then (None, fid\<lparr>eof := True\<rparr>)
      else (Some (bytes fid ! pos fid), fid\<lparr>pos := pos fid + 1\<rparr>))"

definition ftell :: "FILE \<Rightarrow> int" where
  "ftell fid = int (pos fid)"

text \<open>
  \<^verbatim>\<open>fseek\<close> on a regular file: a position past the end of the data is accepted, a
  negative one is refused (\<open>None\<close>, the stream unchanged); success clears the end-of-file
  indicator.  The offsets the program passes are \<^verbatim>\<open>unsigned\<close> values converted to
  \<^verbatim>\<open>long\<close>; with a 64-bit \<^verbatim>\<open>long\<close> the conversion keeps the value (\<open>uint\<close>).
\<close>

definition fseek_cur :: "FILE \<Rightarrow> int \<Rightarrow> FILE option" where
  "fseek_cur fid off =
     (if int (pos fid) + off < 0 then None
      else Some (fid\<lparr>pos := nat (int (pos fid) + off), eof := False\<rparr>))"

definition fseek_set :: "FILE \<Rightarrow> int \<Rightarrow> FILE option" where
  "fseek_set fid off =
     (if off < 0 then None else Some (fid\<lparr>pos := nat off, eof := False\<rparr>))"

subsection \<open>Reading bytes and words\<close>

definition get1Byte :: "FILE \<Rightarrow> byte option \<times> FILE" where
  "get1Byte fid =
     (case fgetc fid of (fgetcResult, fid') \<Rightarrow>
        if eof fid' then (None, fid') else (fgetcResult, fid'))"

text \<open>The word \<^verbatim>\<open>(c1<<24)|(c2<<16)|(c3<<8)|c4\<close>.\<close>

definition be32 :: "byte \<Rightarrow> byte \<Rightarrow> byte \<Rightarrow> byte \<Rightarrow> u32" where
  "be32 c1 c2 c3 c4 =
     push_bit 24 (ucast c1) OR push_bit 16 (ucast c2) OR push_bit 8 (ucast c3) OR ucast c4"

definition get4Bytes :: "FILE \<Rightarrow> u32 option \<times> FILE" where
  "get4Bytes fid =
     (case get1Byte fid of (None, f1) \<Rightarrow> (None, f1) | (Some c1, f1) \<Rightarrow>
     (case get1Byte f1 of (None, f2) \<Rightarrow> (None, f2) | (Some c2, f2) \<Rightarrow>
     (case get1Byte f2 of (None, f3) \<Rightarrow> (None, f3) | (Some c3, f3) \<Rightarrow>
     (case get1Byte f3 of (None, f4) \<Rightarrow> (None, f4) | (Some c4, f4) \<Rightarrow>
        (Some (be32 c1 c2 c3 c4), f4)))))"

definition fourcc_ftyp :: u32 where "fourcc_ftyp = be32 0x66 0x74 0x79 0x70"
definition fourcc_moov :: u32 where "fourcc_moov = be32 0x6D 0x6F 0x6F 0x76"
definition fourcc_free :: u32 where "fourcc_free = be32 0x66 0x72 0x65 0x65"
definition fourcc_mdat :: u32 where "fourcc_mdat = be32 0x6D 0x64 0x61 0x74"

subsection \<open>The atom probe\<close>

text \<open>
  \<^verbatim>\<open>checkAtom\<close> returns the number of remaining bytes of the atom (\<open>Some\<close>) or fails
  (\<open>None\<close>); in both cases the stream is left where the reads have put it.
\<close>

definition checkAtom :: "FILE \<Rightarrow> u32 \<Rightarrow> u32 option \<times> FILE" where
  "checkAtom fid fourccToCheck =
     (case get4Bytes fid of (None, f1) \<Rightarrow> (None, f1) | (Some atomSize, f1) \<Rightarrow>
     (case get4Bytes f1 of (None, f2) \<Rightarrow> (None, f2) | (Some fourcc, f2) \<Rightarrow>
        if fourcc \<noteq> fourccToCheck then (None, f2)
        else if atomSize < 8 then (None, f2)
        else (Some (atomSize - 8), f2)))"

subsection \<open>Repair type 1: a new \<^verbatim>\<open>ftyp\<close> header, then the rest of the input\<close>

text \<open>The loop \<^verbatim>\<open>while (get1Byte(inputFID, &c)) fputc(c, outputFID)\<close>.\<close>

function copy_rest :: "FILE \<Rightarrow> byte list \<Rightarrow> byte list" where
  "copy_rest inputFID outputFID =
     (case get1Byte inputFID of
        (None, _) \<Rightarrow> outputFID
      | (Some c, fid') \<Rightarrow> copy_rest fid' (outputFID @ [c]))"
  by pat_completeness auto
termination
  by (relation "measure (\<lambda>(f, out). length (bytes f) - pos f)")
     (auto simp: get1Byte_def fgetc_def split: if_splits)

declare copy_rest.simps [simp del]

definition doRepairType1 :: "FILE \<Rightarrow> byte list \<Rightarrow> u32 \<Rightarrow> byte list" where
  "doRepairType1 inputFID outputFID ftypSize =
     copy_rest inputFID
       (outputFID @
        [ucast (drop_bit 24 ftypSize), ucast (drop_bit 16 ftypSize),
         ucast (drop_bit 8 ftypSize), ucast ftypSize] @
        [0x66, 0x74, 0x79, 0x70])"

subsection \<open>Facts about the readers\<close>

definition word_at :: "byte list \<Rightarrow> nat \<Rightarrow> u32" where
  "word_at xs j = be32 (xs ! j) (xs ! (j + 1)) (xs ! (j + 2)) (xs ! (j + 3))"

lemma get1Byte_Some:
  "\<not> eof f \<Longrightarrow> pos f < length (bytes f) \<Longrightarrow>
   get1Byte f = (Some (bytes f ! pos f), f\<lparr>pos := pos f + 1\<rparr>)"
  by (simp add: get1Byte_def fgetc_def)

lemma get1Byte_None:
  "eof f \<or> length (bytes f) \<le> pos f \<Longrightarrow> get1Byte f = (None, f\<lparr>eof := True\<rparr>)"
  by (auto simp: get1Byte_def fgetc_def)

lemma get1Byte_SomeD:
  assumes "get1Byte f = (Some c, f')"
  shows "\<not> eof f" and "pos f < length (bytes f)" and "f' = f\<lparr>pos := pos f + 1\<rparr>"
    and "c = bytes f ! pos f"
  using assms by (auto simp: get1Byte_def fgetc_def split: if_splits)

lemma get4Bytes_Some:
  "\<not> eof f \<Longrightarrow> pos f + 4 \<le> length (bytes f) \<Longrightarrow>
   get4Bytes f = (Some (word_at (bytes f) (pos f)), f\<lparr>pos := pos f + 4\<rparr>)"
  by (simp add: get4Bytes_def get1Byte_Some word_at_def numeral_eq_Suc)

lemma get4Bytes_None:
  "\<not> eof f \<Longrightarrow> length (bytes f) < pos f + 4 \<Longrightarrow>
   get4Bytes f = (None, f\<lparr>pos := max (pos f) (length (bytes f)), eof := True\<rparr>)"
  by (simp add: get4Bytes_def get1Byte_def fgetc_def max_def)

lemma get4Bytes_eof: "eof f \<Longrightarrow> get4Bytes f = (None, f)"
  by (simp add: get4Bytes_def get1Byte_def fgetc_def)

lemma get4Bytes_SomeD:
  assumes "get4Bytes f = (Some w, f')"
  shows "\<not> eof f" and "pos f + 4 \<le> length (bytes f)" and "f' = f\<lparr>pos := pos f + 4\<rparr>"
    and "w = word_at (bytes f) (pos f)"
proof -
  show e: "\<not> eof f"
    using assms by (auto simp: get4Bytes_eof)
  show l: "pos f + 4 \<le> length (bytes f)"
    using assms e by (cases "pos f + 4 \<le> length (bytes f)") (auto simp: get4Bytes_None)
  show "f' = f\<lparr>pos := pos f + 4\<rparr>" and "w = word_at (bytes f) (pos f)"
    using assms e l by (auto simp: get4Bytes_Some)
qed

lemma checkAtom_unfold:
  "\<not> eof fid \<Longrightarrow>
   checkAtom fid tag =
     (if pos fid + 8 \<le> length (bytes fid) then
        (if word_at (bytes fid) (pos fid + 4) = tag \<and> 8 \<le> word_at (bytes fid) (pos fid)
         then Some (word_at (bytes fid) (pos fid) - 8) else None,
         fid\<lparr>pos := pos fid + 8\<rparr>)
      else (None, fid\<lparr>pos := max (pos fid) (length (bytes fid)), eof := True\<rparr>))"
  apply (cases "pos fid + 8 \<le> length (bytes fid)")
   apply (auto simp: checkAtom_def get4Bytes_Some)[1]
  apply (cases "pos fid + 4 \<le> length (bytes fid)")
   apply (simp add: checkAtom_def get4Bytes_Some get4Bytes_None max_def)
  apply (simp add: checkAtom_def get4Bytes_None)
  done

lemma checkAtom_eof: "eof fid \<Longrightarrow> checkAtom fid tag = (None, fid)"
  by (simp add: checkAtom_def get4Bytes_eof)

lemma checkAtom_SomeD:
  assumes "checkAtom f tag = (Some n, f')"
  shows "\<not> eof f" and "pos f + 8 \<le> length (bytes f)" and "f' = f\<lparr>pos := pos f + 8\<rparr>"
    and "word_at (bytes f) (pos f + 4) = tag" and "8 \<le> word_at (bytes f) (pos f)"
    and "n = word_at (bytes f) (pos f) - 8"
proof -
  show e: "\<not> eof f"
    using assms by (auto simp: checkAtom_eof)
  show "pos f + 8 \<le> length (bytes f)" and "f' = f\<lparr>pos := pos f + 8\<rparr>"
    and "word_at (bytes f) (pos f + 4) = tag" and "8 \<le> word_at (bytes f) (pos f)"
    and "n = word_at (bytes f) (pos f) - 8"
    using assms by (auto simp: checkAtom_unfold [OF e] split: if_splits)
qed

lemma fseek_cur_uint:
  "fseek_cur f (uint (n::u32)) = Some (f\<lparr>pos := pos f + unat n, eof := False\<rparr>)"
proof -
  have "0 \<le> int (pos f) + uint n"
    by simp
  moreover have "nat (int (pos f) + uint n) = pos f + unat n"
    by (simp add: nat_add_distrib)
  ultimately show ?thesis
    by (simp add: fseek_cur_def not_less)
qed

lemma get1Byte_progress:
  assumes "(Some c, f') = get1Byte f"
  shows "bytes f' = bytes f \<and> pos f' = pos f + 1 \<and> pos f + 1 \<le> length (bytes f)"
  using get1Byte_SomeD [OF assms [symmetric]] by auto

lemma get4Bytes_progress:
  assumes "(Some w, f') = get4Bytes f"
  shows "bytes f' = bytes f \<and> pos f' = pos f + 4 \<and> pos f + 4 \<le> length (bytes f)"
  using get4Bytes_SomeD [OF assms [symmetric]] by auto

lemma checkAtom_progress:
  assumes "(Some n, f') = checkAtom f tag"
  shows "bytes f' = bytes f \<and> pos f' = pos f + 8 \<and> pos f + 8 \<le> length (bytes f)"
  using checkAtom_SomeD [OF assms [symmetric]] by auto

subsection \<open>Looking for the start of the data\<close>

text \<open>The ways in which \<^verbatim>\<open>main\<close> gives up (it then returns 1).\<close>

datatype fatal =
    UnreadableStart   \<comment> \<open>Unable to read the start of the file.\<close>
  | BadFtypLength     \<comment> \<open>Bad length for initial 'ftyp' atom.\<close>
  | OnlyFiller        \<comment> \<open>File appears to contain nothing but zeros or 0xFF!\<close>
  | NoSaneData        \<comment> \<open>...Unable to find sane initial data.\<close>
  | TruncatedMoov     \<comment> \<open>Input file was truncated before end of 'moov'.\<close>
  | TruncatedFree     \<comment> \<open>Input file was truncated before end of 'free'.\<close>
  | RewindFailed      \<comment> \<open>Failed to rewind 8 bytes.\<close>
  | NoMarker          \<comment> \<open>Didn't see 0x00000002.\<close>

text \<open>
  How the first loop of \<^verbatim>\<open>main\<close> ends well: on \<^verbatim>\<open>ftyp\<close> (repair type 1) or on
  \<^verbatim>\<open>0x00000002\<close> (repair type 2, with \<^verbatim>\<open>repairType2Second4Bytes\<close>).  The last field is
  the file position that the message \<^verbatim>\<open>Found ... (at file position 0x%lx)\<close> prints, when
  it is printed (not at the start of the file).
\<close>

datatype start =
    SawFtyp FILE "int option"
  | Saw2 FILE u32 "int option"

function scan_start :: "FILE \<Rightarrow> u32 \<Rightarrow> u32 \<Rightarrow> bool \<Rightarrow> fatal + start" where
  "scan_start inputFID first4Bytes next4Bytes amAtStartOfFile =
     (if next4Bytes = fourcc_ftyp then
        (if first4Bytes < 8 then Inl BadFtypLength
         else (case fseek_cur inputFID (uint (first4Bytes - 8)) of
                 None \<Rightarrow> Inl BadFtypLength
               | Some fid' \<Rightarrow>
                   Inr (SawFtyp fid' (if amAtStartOfFile then None else Some (ftell fid' - 8)))))
      else if first4Bytes = 0x00000002 then
        Inr (Saw2 inputFID next4Bytes
               (if amAtStartOfFile then None else Some (ftell inputFID - 8)))
      else if first4Bytes = 0x00000000 \<or> first4Bytes = 0xFFFFFFFF then
        (case get4Bytes inputFID of
           (None, _) \<Rightarrow> Inl OnlyFiller
         | (Some w, fid') \<Rightarrow> scan_start fid' next4Bytes w False)
      else
        (case get1Byte inputFID of
           (None, _) \<Rightarrow> Inl NoSaneData
         | (Some c, fid') \<Rightarrow>
             scan_start fid'
               ((push_bit 8 first4Bytes AND 0xFFFFFF00) OR (drop_bit 24 next4Bytes AND 0x000000FF))
               ((push_bit 8 next4Bytes AND 0xFFFFFF00) OR ucast c)
               False))"
  by pat_completeness auto
termination
  by (relation "measure (\<lambda>(f, a, b, s). length (bytes f) - pos f)")
     (auto dest!: get4Bytes_progress get1Byte_progress)

declare scan_start.simps [simp del]

definition find_start :: "FILE \<Rightarrow> fatal + start" where
  "find_start inputFID =
     (case get4Bytes inputFID of (None, _) \<Rightarrow> Inl UnreadableStart | (Some first4Bytes, f1) \<Rightarrow>
     (case get4Bytes f1 of (None, _) \<Rightarrow> Inl UnreadableStart | (Some next4Bytes, f2) \<Rightarrow>
        scan_start f2 first4Bytes next4Bytes True))"

subsection \<open>Repair type 1: the atoms after the initial \<^verbatim>\<open>ftyp\<close>\<close>

text \<open>The outcome of the detection: the repair type, the stream, and the parameter of
  the repair (\<^verbatim>\<open>repairType1FtypSize\<close> or \<^verbatim>\<open>repairType2Second4Bytes\<close>).\<close>

datatype plan =
    Type1 FILE u32
  | Type2 FILE u32

text \<open>
  The loop that follows repeated \<^verbatim>\<open>ftyp\<close>, \<^verbatim>\<open>moov\<close>, \<^verbatim>\<open>mdat\<close>(\<^verbatim>\<open>ftyp\<close>...)
  sequences.  It returns the stream, \<^verbatim>\<open>curPos\<close> and \<^verbatim>\<open>numBytesToSkip\<close> as they are
  when the loop is left.
\<close>

function nested_ftyp :: "FILE \<Rightarrow> u32 \<Rightarrow> FILE \<times> int \<times> u32" where
  "nested_ftyp inputFID numBytesToSkip =
     (let curPos = ftell inputFID in
      case fseek_cur inputFID (uint numBytesToSkip) of None \<Rightarrow> (inputFID, curPos, numBytesToSkip)
      | Some f1 \<Rightarrow>
     (case checkAtom f1 fourcc_moov of (None, f2) \<Rightarrow> (f2, curPos, numBytesToSkip)
      | (Some nbts_moov, f2) \<Rightarrow>
     (case fseek_cur f2 (uint nbts_moov) of None \<Rightarrow> (f2, curPos, numBytesToSkip)
      | Some f3 \<Rightarrow>
     (case checkAtom f3 fourcc_mdat of (None, f4) \<Rightarrow> (f4, curPos, numBytesToSkip)
      | (Some dummy, f4) \<Rightarrow>
     (case checkAtom f4 fourcc_ftyp of (None, f5) \<Rightarrow> (f5, curPos, numBytesToSkip)
      | (Some numBytesToSkip', f5) \<Rightarrow> nested_ftyp f5 numBytesToSkip')))))"
  by pat_completeness auto
termination
  by (relation "measure (\<lambda>(f, n). length (bytes f) - pos f)")
     (auto simp: fseek_cur_uint dest!: checkAtom_progress)

declare nested_ftyp.simps [simp del]

text \<open>
  The search for \<^verbatim>\<open>0x00000002\<close> after the atoms.  The source shifts
  \<^verbatim>\<open>next4Bytes\<close> into \<^verbatim>\<open>first4Bytes\<close> and reads a new \<^verbatim>\<open>next4Bytes\<close> at the end of
  an iteration, and the next iteration begins by reading both words again.
\<close>

function look_for_2 :: "FILE \<Rightarrow> fatal + plan" where
  "look_for_2 inputFID =
     (case get4Bytes inputFID of (None, _) \<Rightarrow> Inl NoMarker | (Some first4Bytes, f1) \<Rightarrow>
     (case get4Bytes f1 of (None, _) \<Rightarrow> Inl NoMarker | (Some next4Bytes, f2) \<Rightarrow>
        if first4Bytes = 0x00000002 then Inr (Type2 f2 next4Bytes)
        else (case get4Bytes f2 of (None, _) \<Rightarrow> Inl NoMarker
              | (Some next4Bytes', f3) \<Rightarrow> look_for_2 f3)))"
  by pat_completeness auto
termination
  by (relation "measure (\<lambda>f. length (bytes f) - pos f)")
     (auto dest!: get4Bytes_progress)

declare look_for_2.simps [simp del]

definition skip_atom :: "FILE \<Rightarrow> u32 \<Rightarrow> fatal \<Rightarrow> fatal + FILE" where
  "skip_atom inputFID fourcc truncated =
     (case checkAtom inputFID fourcc of
        (Some numBytesToSkip, f1) \<Rightarrow>
          (case fseek_cur f1 (uint numBytesToSkip) of
             None \<Rightarrow> Inl truncated | Some f2 \<Rightarrow> Inr f2)
      | (None, f1) \<Rightarrow>
          (case fseek_cur f1 (- 8) of None \<Rightarrow> Inl RewindFailed | Some f2 \<Rightarrow> Inr f2))"

definition check_mdat :: "FILE \<Rightarrow> fatal + plan" where
  "check_mdat inputFID =
     (case checkAtom inputFID fourcc_mdat of
        (Some dummy, f1) \<Rightarrow>
          (case checkAtom f1 fourcc_ftyp of
             (Some numBytesToSkip, f2) \<Rightarrow>
               (case nested_ftyp f2 numBytesToSkip of (f3, curPos, numBytesToSkip') \<Rightarrow>
                  Inr (Type1 (case fseek_set f3 curPos of None \<Rightarrow> f3 | Some f4 \<Rightarrow> f4)
                         (numBytesToSkip' + 8)))
           | (None, f2) \<Rightarrow>
               (case fseek_cur f2 (- 8) of
                  None \<Rightarrow> Inl RewindFailed
                | Some f3 \<Rightarrow> look_for_2 f3))
      | (None, f1) \<Rightarrow> look_for_2 f1)"

definition detect :: "FILE \<Rightarrow> fatal + plan" where
  "detect inputFID =
     (case find_start inputFID of
        Inl e \<Rightarrow> Inl e
      | Inr (Saw2 f next4Bytes report) \<Rightarrow> Inr (Type2 f next4Bytes)
      | Inr (SawFtyp f report) \<Rightarrow>
          (case skip_atom f fourcc_moov TruncatedMoov of
             Inl e \<Rightarrow> Inl e
           | Inr f1 \<Rightarrow>
               (case skip_atom f1 fourcc_free TruncatedFree of
                  Inl e \<Rightarrow> Inl e
                | Inr f2 \<Rightarrow> check_mdat f2)))"

subsection \<open>Repair type 2: SPS and PPS, then the NAL units with start codes\<close>

definition putStartCode :: "byte list \<Rightarrow> byte list" where
  "putStartCode outputFID = outputFID @ [0x00, 0x00, 0x00, 0x01]"

definition SPS_2160p30 :: "byte list" where
  "SPS_2160p30 =
    [0x27, 0x64, 0x00, 0x33, 0xac, 0x34, 0xc8, 0x03, 0xc0, 0x04, 0x3e, 0xc0,
     0x5a, 0x80, 0x80, 0x80, 0xa0, 0x00, 0x00, 0x7d, 0x20, 0x00, 0x1d, 0x4c,
     0x1d, 0x0c, 0x00, 0x07, 0x27, 0x08, 0x00, 0x01, 0xc9, 0xc3, 0x97, 0x79,
     0x71, 0xa1, 0x80, 0x00, 0xe4, 0xe1, 0x00, 0x00, 0x39, 0x38, 0x72, 0xef,
     0x2e, 0x1f, 0x08, 0x84, 0x53, 0x80, 0xff]"

definition SPS_2160p25 :: "byte list" where
  "SPS_2160p25 =
    [0x27, 0x64, 0x00, 0x33, 0xac, 0x34, 0xc8, 0x03, 0xc0, 0x04, 0x3e, 0xc0,
     0x5a, 0x80, 0x80, 0x80, 0xa0, 0x00, 0x00, 0x7d, 0x00, 0x00, 0x18, 0x6a,
     0x1d, 0x0c, 0x00, 0x07, 0x27, 0x08, 0x00, 0x01, 0xc9, 0xc3, 0x97, 0x79,
     0x71, 0xa1, 0x80, 0x00, 0xe4, 0xe1, 0x00, 0x00, 0x39, 0x38, 0x72, 0xef,
     0x2e, 0x1f, 0x08, 0x84, 0x53, 0x80, 0xff]"

definition SPS_2160p24 :: "byte list" where
  "SPS_2160p24 =
    [0x27, 0x64, 0x00, 0x33, 0xac, 0x34, 0xc8, 0x01, 0x00, 0x01, 0x0f, 0xb0,
     0x16, 0xa0, 0x20, 0x20, 0x28, 0x00, 0x00, 0x1f, 0x48, 0x00, 0x05, 0xdc,
     0x07, 0x43, 0x00, 0x01, 0xc9, 0xc2, 0x00, 0x00, 0x72, 0x70, 0xe5, 0xde,
     0x5c, 0x68, 0x60, 0x00, 0x39, 0x38, 0x40, 0x00, 0x0e, 0x4e, 0x1c, 0xbb,
     0xff]"

definition SPS_1520p30 :: "byte list" where
  "SPS_1520p30 =
    [0x27, 0x64, 0x00, 0x29, 0xac, 0x34, 0xc8, 0x02, 0xa4, 0x0b, 0xfb, 0x01,
     0x6a, 0x02, 0x02, 0x02, 0x80, 0x00, 0x01, 0xf4, 0x80, 0x00, 0x75, 0x30,
     0x74, 0x30, 0x00, 0x13, 0x12, 0xc0, 0x00, 0x04, 0xc4, 0xb4, 0x5d, 0xe5,
     0xc6, 0x86, 0x00, 0x02, 0x62, 0x58, 0x00, 0x00, 0x98, 0x96, 0x8b, 0xbc,
     0xb8, 0x7c, 0x22, 0x11, 0x4e, 0x00, 0x00, 0x00, 0xff]"

definition SPS_1520p25 :: "byte list" where
  "SPS_1520p25 =
    [0x27, 0x64, 0x00, 0x29, 0xac, 0x34, 0xc8, 0x02, 0xa4, 0x0b, 0xfb, 0x01,
     0x6a, 0x02, 0x02, 0x02, 0x80, 0x00, 0x00, 0x03, 0x00, 0x80, 0x00, 0x00,
     0x19, 0x74, 0x30, 0x00, 0x13, 0x12, 0xc0, 0x00, 0x04, 0xc4, 0xb4, 0x5d,
     0xe5, 0xc6, 0x86, 0x00, 0x02, 0x62, 0x58, 0x00, 0x00, 0x98, 0x96, 0x8b,
     0xbc, 0xb8, 0x7c, 0x22, 0x11, 0x4e, 0xff]"

definition SPS_1080p60 :: "byte list" where
  "SPS_1080p60 =
    [0x27, 0x64, 0x00, 0x2a, 0xac, 0x34, 0xc8, 0x07, 0x80, 0x22, 0x7e, 0x5c,
     0x05, 0xa8, 0x08, 0x08, 0x0a, 0x00, 0x00, 0x07, 0xd2, 0x00, 0x03, 0xa9,
     0x81, 0xd0, 0xc0, 0x00, 0x4c, 0x4b, 0x00, 0x00, 0x13, 0x12, 0xd1, 0x77,
     0x97, 0x1a, 0x18, 0x00, 0x09, 0x89, 0x60, 0x00, 0x02, 0x62, 0x5a, 0x2e,
     0xf2, 0xe1, 0xf0, 0x88, 0x45, 0x16, 0xff]"

definition SPS_1080i60 :: "byte list" where
  "SPS_1080i60 =
    [0x27, 0x4d, 0x00, 0x2a, 0x9a, 0x66, 0x03, 0xc0, 0x22, 0x3e, 0xf0, 0x16,
     0xc8, 0x00, 0x00, 0x1f, 0x48, 0x00, 0x07, 0x53, 0x07, 0x43, 0x00, 0x02,
     0x36, 0x78, 0x00, 0x02, 0x36, 0x78, 0x5d, 0xe5, 0xc6, 0x86, 0x00, 0x04,
     0x6c, 0xf0, 0x00, 0x04, 0x6c, 0xf0, 0xbb, 0xcb, 0x87, 0xc2, 0x21, 0x14,
     0x58, 0xff]"

definition SPS_1080p50 :: "byte list" where
  "SPS_1080p50 =
    [0x27, 0x64, 0x00, 0x29, 0xac, 0x34, 0xc8, 0x07, 0x80, 0x22, 0x7e, 0x5c,
     0x05, 0xa8, 0x08, 0x08, 0x0a, 0x00, 0x00, 0x07, 0xd0, 0x00, 0x03, 0x0d,
     0x41, 0xd0, 0xc0, 0x00, 0x4c, 0x4b, 0x00, 0x00, 0x13, 0x12, 0xd1, 0x77,
     0x97, 0x1a, 0x18, 0x00, 0x09, 0x89, 0x60, 0x00, 0x02, 0x62, 0x5a, 0x2e,
     0xf2, 0xe1, 0xf0, 0x88, 0x45, 0x16, 0xff]"

definition SPS_1080p30 :: "byte list" where
  "SPS_1080p30 =
    [0x27, 0x4d, 0x00, 0x28, 0x9a, 0x66, 0x03, 0xc0, 0x11, 0x3f, 0x2e, 0x02,
     0xd9, 0x00, 0x00, 0x03, 0x03, 0xe9, 0x00, 0x00, 0xea, 0x60, 0xe8, 0x60,
     0x00, 0xe2, 0x98, 0x00, 0x03, 0x8a, 0x60, 0xbb, 0xcb, 0x8d, 0x0c, 0x00,
     0x1c, 0x53, 0x00, 0x00, 0x71, 0x4c, 0x17, 0x79, 0x70, 0xf8, 0x44, 0x22,
     0x8b, 0xff]"

definition SPS_1080p25 :: "byte list" where
  "SPS_1080p25 =
    [0x27, 0x4d, 0x00, 0x28, 0x9a, 0x66, 0x03, 0xc0, 0x11, 0x3f, 0x2e, 0x02,
     0xd9, 0x00, 0x00, 0x03, 0x03, 0xe8, 0x00, 0x00, 0xc3, 0x50, 0xe8, 0x60,
     0x00, 0xdc, 0xf0, 0x00, 0x03, 0x73, 0xb8, 0xbb, 0xcb, 0x8d, 0x0c, 0x00,
     0x1b, 0x9e, 0x00, 0x00, 0x6e, 0x77, 0x17, 0x79, 0x70, 0xf8, 0x44, 0x22,
     0x8b, 0xff]"

definition SPS_1080p24 :: "byte list" where
  "SPS_1080p24 =
    [0x27, 0x64, 0x00, 0x29, 0xac, 0x34, 0xc8, 0x07, 0x80, 0x22, 0x7e, 0x5c,
     0x05, 0xa8, 0x08, 0x08, 0x0a, 0x00, 0x00, 0x07, 0xd2, 0x00, 0x01, 0x77,
     0x01, 0xd0, 0xc0, 0x00, 0xbe, 0xbc, 0x00, 0x00, 0xbe, 0xbc, 0x17, 0x79,
     0x71, 0xa1, 0x80, 0x01, 0x7d, 0x78, 0x00, 0x01, 0x7d, 0x78, 0x2e, 0xf2,
     0xe1, 0xf0, 0x88, 0x45, 0x16, 0x00, 0x00, 0x00, 0xff]"

definition SPS_720p60 :: "byte list" where
  "SPS_720p60 =
    [0x27, 0x4d, 0x00, 0x20, 0x9a, 0x66, 0x02, 0x80, 0x2d, 0xd8, 0x0b, 0x64,
     0x00, 0x00, 0x0f, 0xa4, 0x00, 0x07, 0x53, 0x03, 0xa1, 0x80, 0x03, 0x8a,
     0x60, 0x00, 0x0e, 0x29, 0x82, 0xef, 0x2e, 0x34, 0x30, 0x00, 0x71, 0x4c,
     0x00, 0x01, 0xc5, 0x30, 0x5d, 0xe5, 0xc3, 0xe1, 0x10, 0x8a, 0x34, 0xff]"

definition SPS_720p30 :: "byte list" where
  "SPS_720p30 =
    [0x27, 0x4d, 0x00, 0x1f, 0x9a, 0x66, 0x02, 0x80, 0x2d, 0xd8, 0x0b, 0x64,
     0x00, 0x00, 0x0f, 0xa4, 0x00, 0x03, 0xa9, 0x83, 0xa1, 0x80, 0x02, 0x5c,
     0x40, 0x00, 0x09, 0x71, 0x02, 0xef, 0x2e, 0x34, 0x30, 0x00, 0x4b, 0x88,
     0x00, 0x01, 0x2e, 0x20, 0x5d, 0xe5, 0xc3, 0xe1, 0x10, 0x8a, 0x34, 0xff]"

definition SPS_720p25 :: "byte list" where
  "SPS_720p25 =
    [0x27, 0x64, 0x00, 0x28, 0xac, 0x34, 0xc8, 0x05, 0x00, 0x5b, 0xb0, 0x16,
     0xa0, 0x20, 0x20, 0x28, 0x00, 0x00, 0x1f, 0x40, 0x00, 0x06, 0x1a, 0x87,
     0x43, 0x00, 0x0f, 0xd4, 0x80, 0x00, 0xfd, 0x4b, 0x5d, 0xe5, 0xc6, 0x86,
     0x00, 0x1f, 0xa9, 0x00, 0x01, 0xfa, 0x96, 0xbb, 0xcb, 0x87, 0xc2, 0x21,
     0x14, 0x78, 0xff]"

definition SPS_480p30 :: "byte list" where
  "SPS_480p30 =
    [0x27, 0x4d, 0x40, 0x1e, 0x9a, 0x66, 0x05, 0x01, 0xed, 0x80, 0xb6, 0x40,
     0x00, 0x00, 0xfa, 0x40, 0x00, 0x3a, 0x98, 0x3a, 0x10, 0x00, 0x5e, 0x68,
     0x00, 0x02, 0xf3, 0x40, 0xbb, 0xcb, 0x8d, 0x08, 0x00, 0x2f, 0x34, 0x00,
     0x01, 0x79, 0xa0, 0x5d, 0xe5, 0xc3, 0xe1, 0x10, 0x8a, 0x3c, 0xff]"

definition PPS_P2VP :: "byte list" where
  "PPS_P2VP =
    [0x28, 0xee, 0x3c, 0x80, 0xff]"

definition PPS_Inspire :: "byte list" where
  "PPS_Inspire =
    [0x28, 0xee, 0x38, 0x30, 0xff]"

text \<open>
  The standard input is the list of the characters typed; \<^verbatim>\<open>getchar\<close> returns the next
  one, and \<^verbatim>\<open>EOF\<close> (\<open>-1\<close>) for ever once they are used up.
\<close>

definition getchar :: "int list \<Rightarrow> int \<times> int list" where
  "getchar stdin = (case stdin of [] \<Rightarrow> (- 1, []) | c # cs \<Rightarrow> (c, cs))"

text \<open>
  The loop \<^verbatim>\<open>do {formatCode = getchar(); } while (formatCode == '\r' && formatCode == '\n')\<close>.
\<close>

partial_function (option) read_code :: "int list \<Rightarrow> (int \<times> int list) option" where
  "read_code stdin =
     (case getchar stdin of (formatCode, stdin') \<Rightarrow>
        if formatCode = 0x0D \<and> formatCode = 0x0A then read_code stdin'
        else Some (formatCode, stdin'))"

text \<open>
  The loop \<^verbatim>\<open>while (1)\<close> that asks for the video format until one of \<^verbatim>\<open>0\<close> to
  \<^verbatim>\<open>9\<close>, \<^verbatim>\<open>a\<close> to \<^verbatim>\<open>e\<close>, \<^verbatim>\<open>A\<close> to \<^verbatim>\<open>E\<close> is entered; any other entry gets
  \<^verbatim>\<open>Invalid entry!\<close> and the question again.  The loop need not end: \<open>None\<close> stands for a
  run that asks for ever.
\<close>

partial_function (option) ask_format :: "int list \<Rightarrow> (int \<times> int list) option" where
  "ask_format stdin =
     Option.bind (read_code stdin) (\<lambda>(formatCode, stdin').
       if (0x30 \<le> formatCode \<and> formatCode \<le> 0x39) \<or>
          (0x61 \<le> formatCode \<and> formatCode \<le> 0x65) \<or>
          (0x41 \<le> formatCode \<and> formatCode \<le> 0x45)
       then Some (formatCode, stdin')
       else ask_format stdin')"

text \<open>The \<^verbatim>\<open>switch (formatCode)\<close>; the code is the character that was typed.\<close>

definition select_format :: "int \<Rightarrow> byte list \<times> byte list" where
  "select_format formatCode =
     (if formatCode = 0x30 then (SPS_2160p30, PPS_Inspire)
      else if formatCode = 0x31 then (SPS_2160p25, PPS_Inspire)
      else if formatCode = 0x32 then (SPS_2160p24, PPS_Inspire)
      else if formatCode = 0x33 then (SPS_1520p30, PPS_Inspire)
      else if formatCode = 0x34 then (SPS_1520p25, PPS_Inspire)
      else if formatCode = 0x35 then (SPS_1080p60, PPS_Inspire)
      else if formatCode = 0x36 then (SPS_1080i60, PPS_P2VP)
      else if formatCode = 0x37 then (SPS_1080p50, PPS_Inspire)
      else if formatCode = 0x38 then (SPS_1080p30, PPS_P2VP)
      else if formatCode = 0x39 then (SPS_1080p25, PPS_P2VP)
      else if formatCode = 0x61 \<or> formatCode = 0x41 then (SPS_1080p24, PPS_Inspire)
      else if formatCode = 0x62 \<or> formatCode = 0x42 then (SPS_720p60, PPS_P2VP)
      else if formatCode = 0x63 \<or> formatCode = 0x43 then (SPS_720p30, PPS_P2VP)
      else if formatCode = 0x64 \<or> formatCode = 0x44 then (SPS_720p25, PPS_Inspire)
      else if formatCode = 0x65 \<or> formatCode = 0x45 then (SPS_480p30, PPS_P2VP)
      else (SPS_1080p30, PPS_P2VP))"

text \<open>The loop \<^verbatim>\<open>while ((c = *sps++) != 0xff) wr(c)\<close>.\<close>

fun put_nal :: "byte list \<Rightarrow> byte list \<Rightarrow> byte list" where
  "put_nal outputFID [] = outputFID"
| "put_nal outputFID (c # sps) = (if c \<noteq> 0xff then put_nal (outputFID @ [c]) sps else outputFID)"

text \<open>
  The loop \<^verbatim>\<open>while (nalSize-- > 0) wr(fgetc(inputFID))\<close>: the result of \<^verbatim>\<open>fgetc\<close> is
  written as it is, and \<^verbatim>\<open>fputc\<close> writes \<^verbatim>\<open>EOF\<close> (\<open>-1\<close>) as the byte \<open>0xFF\<close>.
\<close>

fun copy_nal :: "nat \<Rightarrow> FILE \<Rightarrow> byte list \<Rightarrow> FILE \<times> byte list" where
  "copy_nal 0 inputFID outputFID = (inputFID, outputFID)"
| "copy_nal (Suc nalSize) inputFID outputFID =
     (case fgetc inputFID of
        (None, fid') \<Rightarrow> copy_nal nalSize fid' (outputFID @ [0xFF])
      | (Some c, fid') \<Rightarrow> copy_nal nalSize fid' (outputFID @ [c]))"

text \<open>The \<^verbatim>\<open>do ... while (nalSize != 2)\<close> loop over anomalous bytes.\<close>

function skip_anomalous :: "FILE \<Rightarrow> u32 \<Rightarrow> u32 option \<times> FILE" where
  "skip_anomalous inputFID nalSize =
     (case get1Byte inputFID of
        (None, fid') \<Rightarrow> (None, fid')
      | (Some c, fid') \<Rightarrow>
          (let nalSize' = push_bit 8 nalSize OR ucast c in
           if nalSize' \<noteq> 2 then skip_anomalous fid' nalSize' else (Some nalSize', fid')))"
  by pat_completeness auto
termination
  by (relation "measure (\<lambda>(f, n). length (bytes f) - pos f)")
     (auto dest!: get1Byte_progress)

declare skip_anomalous.simps [simp del]

lemma fgetc_file:
  "fgetc f = (r, f') \<Longrightarrow> bytes f' = bytes f \<and> pos f \<le> pos f'"
  by (auto simp: fgetc_def split: if_splits)

lemma copy_nal_file:
  "copy_nal n f out = (f', out') \<Longrightarrow> bytes f' = bytes f \<and> pos f \<le> pos f'"
proof (induction n arbitrary: f out)
  case 0
  then show ?case by simp
next
  case (Suc n)
  obtain r f1 where g: "fgetc f = (r, f1)"
    by (cases "fgetc f")
  from Suc.prems g obtain c where "copy_nal n f1 (out @ [c]) = (f', out')"
    by (cases r) auto
  from Suc.IH [OF this] fgetc_file [OF g] show ?case
    by auto
qed

lemma skip_anomalous_file:
  "skip_anomalous f n = (Some m, f') \<Longrightarrow>
   bytes f' = bytes f \<and> pos f < pos f' \<and> pos f' \<le> length (bytes f)"
proof (induction f n rule: skip_anomalous.induct)
  case (1 f n)
  from "1.prems" obtain c f1 where g: "get1Byte f = (Some c, f1)"
    by (subst (asm) skip_anomalous.simps) (auto split: prod.splits option.splits)
  note d = get1Byte_SomeD [OF g]
  show ?case
  proof (cases "push_bit 8 n OR ucast c = 2")
    case True
    with "1.prems" g d show ?thesis
      by (subst (asm) skip_anomalous.simps) auto
  next
    case False
    with "1.prems" g have "skip_anomalous f1 (push_bit 8 n OR ucast c) = (Some m, f')"
      by (subst (asm) skip_anomalous.simps) (simp add: Let_def)
    from "1.IH" [OF g [symmetric] refl refl False this] d show ?thesis
      by auto
  qed
qed

lemma copy_nal_progress:
  "(f', out') = copy_nal n f out \<Longrightarrow> bytes f' = bytes f \<and> pos f \<le> pos f'"
  using copy_nal_file [of n f out f' out'] by simp

lemma skip_anomalous_progress:
  "(Some m, f') = skip_anomalous f n \<Longrightarrow>
   bytes f' = bytes f \<and> pos f < pos f' \<and> pos f' \<le> length (bytes f)"
  using skip_anomalous_file [of f n m f'] by simp

text \<open>The loop \<^verbatim>\<open>while (!feof(inputFID))\<close> over the NAL units.\<close>

function restream :: "FILE \<Rightarrow> byte list \<Rightarrow> u32 \<Rightarrow> byte list" where
  "restream inputFID outputFID nalSize =
     (if eof inputFID then outputFID
      else
        (case copy_nal (unat nalSize) inputFID (putStartCode outputFID) of (f1, out1) \<Rightarrow>
        (case get4Bytes f1 of
           (None, _) \<Rightarrow> out1
         | (Some nalSize', f2) \<Rightarrow>
             if nalSize' = 0 \<or> nalSize' > 0x00FFFFFF then
               (case skip_anomalous f2 nalSize' of
                  (None, _) \<Rightarrow> out1
                | (Some nalSize'', f3) \<Rightarrow> restream f3 out1 nalSize'')
             else restream f2 out1 nalSize')))"
  by pat_completeness auto
termination
  by (relation "measure (\<lambda>(f, out, n). length (bytes f) - pos f)")
     (auto dest!: copy_nal_progress get4Bytes_progress skip_anomalous_progress)

declare restream.simps [simp del]

text \<open>
  \<^verbatim>\<open>doRepairType2\<close> from the \<^verbatim>\<open>switch\<close> on: what it does once \<open>formatCode\<close> has been
  entered.
\<close>

definition repair_type2 :: "FILE \<Rightarrow> byte list \<Rightarrow> int \<Rightarrow> u32 \<Rightarrow> byte list" where
  "repair_type2 inputFID outputFID formatCode second4Bytes =
     (case select_format formatCode of (sps, pps) \<Rightarrow>
      let out1 = put_nal (putStartCode outputFID) sps;
          out2 = put_nal (putStartCode out1) pps;
          out3 = putStartCode out2 @
                   [ucast (drop_bit 24 second4Bytes), ucast (drop_bit 16 second4Bytes)]
      in (case get1Byte inputFID of (None, _) \<Rightarrow> out3 | (Some c1, f1) \<Rightarrow>
         (case get1Byte f1 of (None, _) \<Rightarrow> out3 | (Some c2, f2) \<Rightarrow>
            restream f2 out3
              (push_bit 16 (second4Bytes AND 0xFFFF) OR push_bit 8 (ucast c1) OR ucast c2))))"

text \<open>
  \<^verbatim>\<open>doRepairType2\<close>: it first asks for the video format, then repairs.  The result is
  \<open>None\<close> when the question is never answered with a valid code.
\<close>

definition doRepairType2 :: "FILE \<Rightarrow> byte list \<Rightarrow> int list \<Rightarrow> u32 \<Rightarrow> byte list option" where
  "doRepairType2 inputFID outputFID stdin second4Bytes =
     (case ask_format stdin of
        None \<Rightarrow> None
      | Some (formatCode, stdin') \<Rightarrow>
          Some (repair_type2 inputFID outputFID formatCode second4Bytes))"

subsection \<open>The program\<close>

text \<open>
  \<^verbatim>\<open>main\<close> on the bytes of the input file and the characters typed on the standard input
  (only a type 2 repair reads them).  The result is \<open>None\<close> when the program never
  returns; otherwise it is the error, or the repair type and the bytes of the repaired
  file.
\<close>

definition main :: "byte list \<Rightarrow> int list \<Rightarrow> (fatal + nat \<times> byte list) option" where
  "main input stdin =
     (case detect (fopen input) of
        Inl e \<Rightarrow> Some (Inl e)
      | Inr (Type1 inputFID repairType1FtypSize) \<Rightarrow>
          Some (Inr (1, doRepairType1 inputFID [] repairType1FtypSize))
      | Inr (Type2 inputFID repairType2Second4Bytes) \<Rightarrow>
          (case doRepairType2 inputFID [] stdin repairType2Second4Bytes of
             None \<Rightarrow> None
           | Some outputFID \<Rightarrow> Some (Inr (2, outputFID))))"

subsection \<open>Facts about the question for the video format\<close>

lemma read_code_eq: "read_code stdin = Some (getchar stdin)"
  by (subst read_code.simps) (simp split: prod.splits)

lemma ask_format_valid:
  assumes "(0x30 \<le> c \<and> c \<le> 0x39) \<or> (0x61 \<le> c \<and> c \<le> 0x65) \<or> (0x41 \<le> c \<and> c \<le> 0x45)"
  shows "ask_format (c # cs) = Some (c, cs)"
  using assms by (subst ask_format.simps) (auto simp: read_code_eq getchar_def)




section \<open>Properties\<close>

subsection \<open>What the operations do to the stream\<close>

lemma get1Byte_bytes: "get1Byte f = (r, f') \<Longrightarrow> bytes f' = bytes f"
  by (auto simp: get1Byte_def fgetc_def split: if_splits)

lemma get4Bytes_bytes: "get4Bytes f = (r, f') \<Longrightarrow> bytes f' = bytes f"
proof (cases "eof f")
  case True
  then show "get4Bytes f = (r, f') \<Longrightarrow> bytes f' = bytes f"
    by (auto simp: get4Bytes_eof)
next
  case False
  then show "get4Bytes f = (r, f') \<Longrightarrow> bytes f' = bytes f"
    by (cases "pos f + 4 \<le> length (bytes f)") (auto simp: get4Bytes_Some get4Bytes_None)
qed

lemma get4Bytes_Some_file:
  "get4Bytes f = (Some w, f') \<Longrightarrow> bytes f' = bytes f \<and> \<not> eof f' \<and> pos f' = pos f + 4"
  using get4Bytes_SomeD [of f w f'] by simp

lemma checkAtom_bytes: "checkAtom f tag = (r, f') \<Longrightarrow> bytes f' = bytes f"
proof (cases "eof f")
  case True
  then show "checkAtom f tag = (r, f') \<Longrightarrow> bytes f' = bytes f"
    by (auto simp: checkAtom_eof)
next
  case False
  then show "checkAtom f tag = (r, f') \<Longrightarrow> bytes f' = bytes f"
    by (auto simp: checkAtom_unfold split: if_splits)
qed

lemma fseek_cur_bytes: "fseek_cur f off = Some f' \<Longrightarrow> bytes f' = bytes f \<and> \<not> eof f'"
  by (auto simp: fseek_cur_def split: if_splits)

lemma fseek_set_nonneg: "0 \<le> p \<Longrightarrow> fseek_set f p = Some (f\<lparr>pos := nat p, eof := False\<rparr>)"
  by (simp add: fseek_set_def)

lemma scan_start_bytes:
  "scan_start f a b s = Inr (SawFtyp f' r) \<Longrightarrow> bytes f' = bytes f \<and> \<not> eof f'"
proof (induction f a b s rule: scan_start.induct)
  case (1 f a b s)
  show ?case
    using "1.prems" "1.IH"
    by (subst (asm) scan_start.simps)
       (auto split: if_splits option.splits prod.splits
             dest!: fseek_cur_bytes get4Bytes_bytes get1Byte_bytes)
qed

lemma find_start_bytes:
  "find_start f = Inr (SawFtyp f' r) \<Longrightarrow> bytes f' = bytes f \<and> \<not> eof f'"
  by (auto simp: find_start_def split: option.splits prod.splits
           dest!: scan_start_bytes get4Bytes_bytes)

lemma skip_atom_bytes:
  "skip_atom f tag e = Inr f' \<Longrightarrow> bytes f' = bytes f \<and> \<not> eof f'"
  by (auto simp: skip_atom_def split: option.splits prod.splits
           dest!: fseek_cur_bytes checkAtom_bytes)

lemma look_for_2_Type2:
  "look_for_2 f = Inr p \<Longrightarrow> \<exists>f' w. p = Type2 f' w \<and> bytes f' = bytes f \<and> \<not> eof f'"
proof (induction f rule: look_for_2.induct)
  case (1 f)
  show ?case
    using "1.prems" "1.IH"
    by (subst (asm) look_for_2.simps)
       (auto split: option.splits prod.splits if_splits dest!: get4Bytes_Some_file)
qed

subsection \<open>Words and their bytes\<close>

lemma be32_bytes:
  "be32 (ucast (drop_bit 24 s)) (ucast (drop_bit 16 s)) (ucast (drop_bit 8 s)) (ucast s) = s"
  apply (simp add: be32_def)
  apply (rule bit_word_eqI)
  apply (auto simp: bit_simps)
  subgoal for n by (cases "16 \<le> n") auto
  subgoal for n by (cases "24 \<le> n"; cases "16 \<le> n") auto
  done

subsection \<open>Repair type 1 writes the header and copies the rest\<close>

lemma copy_rest_eq:
  "\<not> eof f \<Longrightarrow> copy_rest f out = out @ drop (pos f) (bytes f)"
proof (induction f out rule: copy_rest.induct)
  case (1 f out)
  show ?case
  proof (cases "pos f < length (bytes f)")
    case True
    with 1 show ?thesis
      by (subst copy_rest.simps) (simp add: get1Byte_Some Cons_nth_drop_Suc)
  next
    case False
    with 1 show ?thesis
      by (subst copy_rest.simps) (simp add: get1Byte_None)
  qed
qed

subsection \<open>Repeated \<^verbatim>\<open>ftyp\<close>, \<^verbatim>\<open>moov\<close>, \<^verbatim>\<open>mdat\<close> sequences\<close>

definition atom_at :: "byte list \<Rightarrow> nat \<Rightarrow> u32 \<Rightarrow> bool" where
  "atom_at xs p tag \<longleftrightarrow> p + 8 \<le> length xs \<and> word_at xs (p + 4) = tag \<and> 8 \<le> word_at xs p"

definition next_ftyp :: "byte list \<Rightarrow> nat \<times> u32 \<Rightarrow> (nat \<times> u32) option" where
  "next_ftyp xs a =
     (case a of (p, n) \<Rightarrow>
        let q = p + unat n in
        if atom_at xs q fourcc_moov then
          let r = q + 8 + unat (word_at xs q - 8) in
          if atom_at xs r fourcc_mdat \<and> atom_at xs (r + 8) fourcc_ftyp
          then Some (r + 16, word_at xs (r + 8) - 8)
          else None
        else None)"

lemma checkAtom_atom:
  "\<not> eof f \<Longrightarrow> atom_at (bytes f) (pos f) tag \<Longrightarrow>
   checkAtom f tag = (Some (word_at (bytes f) (pos f) - 8), f\<lparr>pos := pos f + 8\<rparr>)"
  by (simp add: checkAtom_unfold atom_at_def)

lemma checkAtom_no_atom:
  "\<not> eof f \<Longrightarrow> \<not> atom_at (bytes f) (pos f) tag \<Longrightarrow> fst (checkAtom f tag) = None"
  by (auto simp: checkAtom_unfold atom_at_def)

lemma nested_ftyp_stop:
  assumes "next_ftyp (bytes f) (pos f, n) = None"
  shows "\<exists>f'. nested_ftyp f n = (f', int (pos f), n) \<and> bytes f' = bytes f"
proof -
  let ?xs = "bytes f"
  let ?q = "pos f + unat n"
  let ?f1 = "f\<lparr>pos := ?q, eof := False\<rparr>"
  show ?thesis
  proof (cases "atom_at ?xs ?q fourcc_moov")
    case False
    then have "fst (checkAtom ?f1 fourcc_moov) = None"
      by (intro checkAtom_no_atom) simp_all
    then obtain f2 where c: "checkAtom ?f1 fourcc_moov = (None, f2)"
      by (cases "checkAtom ?f1 fourcc_moov") auto
    from checkAtom_bytes [OF c] c show ?thesis
      by (subst nested_ftyp.simps) (simp add: fseek_cur_uint Let_def ftell_def)
  next
    case True
    let ?m = "word_at ?xs ?q - 8"
    let ?r = "?q + 8 + unat ?m"
    let ?f3 = "f\<lparr>pos := ?r, eof := False\<rparr>"
    from True have c1: "checkAtom ?f1 fourcc_moov = (Some ?m, ?f1\<lparr>pos := ?q + 8\<rparr>)"
      using checkAtom_atom [of ?f1 fourcc_moov] by simp
    show ?thesis
    proof (cases "atom_at ?xs ?r fourcc_mdat")
      case False
      then have "fst (checkAtom ?f3 fourcc_mdat) = None"
        by (intro checkAtom_no_atom) simp_all
      then obtain f4 where c: "checkAtom ?f3 fourcc_mdat = (None, f4)"
        by (cases "checkAtom ?f3 fourcc_mdat") auto
      from checkAtom_bytes [OF c] c c1 show ?thesis
        by (subst nested_ftyp.simps) (simp add: fseek_cur_uint Let_def ftell_def add.assoc)
    next
      case mdat: True
      let ?f4 = "f\<lparr>pos := ?r + 8, eof := False\<rparr>"
      from mdat have c2: "checkAtom ?f3 fourcc_mdat = (Some (word_at ?xs ?r - 8), ?f4)"
        using checkAtom_atom [of ?f3 fourcc_mdat] by simp
      from assms True mdat have "\<not> atom_at ?xs (?r + 8) fourcc_ftyp"
        by (auto simp: next_ftyp_def Let_def)
      then have "fst (checkAtom ?f4 fourcc_ftyp) = None"
        by (intro checkAtom_no_atom) simp_all
      then obtain f5 where c: "checkAtom ?f4 fourcc_ftyp = (None, f5)"
        by (cases "checkAtom ?f4 fourcc_ftyp") auto
      from checkAtom_bytes [OF c] c c1 c2 show ?thesis
        by (subst nested_ftyp.simps) (simp add: fseek_cur_uint Let_def ftell_def add.assoc)
    qed
  qed
qed

lemma nested_ftyp_step:
  assumes "next_ftyp (bytes f) (pos f, n) = Some (p', n')"
  shows "nested_ftyp f n = nested_ftyp (f\<lparr>pos := p', eof := False\<rparr>) n'"
    and "pos f < p'" and "p' \<le> length (bytes f)"
proof -
  let ?xs = "bytes f"
  let ?q = "pos f + unat n"
  let ?f1 = "f\<lparr>pos := ?q, eof := False\<rparr>"
  let ?m = "word_at ?xs ?q - 8"
  let ?r = "?q + 8 + unat ?m"
  let ?f3 = "f\<lparr>pos := ?r, eof := False\<rparr>"
  let ?f4 = "f\<lparr>pos := ?r + 8, eof := False\<rparr>"
  from assms have moov: "atom_at ?xs ?q fourcc_moov"
    and mdat: "atom_at ?xs ?r fourcc_mdat" and ftyp: "atom_at ?xs (?r + 8) fourcc_ftyp"
    and p': "p' = ?r + 16" and n': "n' = word_at ?xs (?r + 8) - 8"
    by (auto simp: next_ftyp_def Let_def split: if_splits)
  from moov have c1: "checkAtom ?f1 fourcc_moov = (Some ?m, ?f1\<lparr>pos := ?q + 8\<rparr>)"
    using checkAtom_atom [of ?f1 fourcc_moov] by simp
  from mdat have c2: "checkAtom ?f3 fourcc_mdat = (Some (word_at ?xs ?r - 8), ?f4)"
    using checkAtom_atom [of ?f3 fourcc_mdat] by simp
  from ftyp have c3: "checkAtom ?f4 fourcc_ftyp = (Some n', f\<lparr>pos := p', eof := False\<rparr>)"
    using checkAtom_atom [of ?f4 fourcc_ftyp] by (simp add: p' n')
  from c1 c2 c3 show "nested_ftyp f n = nested_ftyp (f\<lparr>pos := p', eof := False\<rparr>) n'"
    by (subst nested_ftyp.simps) (simp add: fseek_cur_uint Let_def ftell_def add.assoc)
  from p' show "pos f < p'" by simp
  from ftyp p' show "p' \<le> length (bytes f)" by (simp add: atom_at_def)
qed


definition repeats :: "byte list \<Rightarrow> nat \<times> u32 \<Rightarrow> nat \<times> u32 \<Rightarrow> bool" where
  "repeats xs = rtranclp (\<lambda>a b. next_ftyp xs a = Some b)"

lemma nested_ftyp_result:
  "\<exists>f' p' n'. nested_ftyp f n = (f', int p', n') \<and> bytes f' = bytes f
     \<and> repeats (bytes f) (pos f, n) (p', n') \<and> next_ftyp (bytes f) (p', n') = None"
proof (induction "length (bytes f) - pos f" arbitrary: f n rule: less_induct)
  case less
  show ?case
  proof (cases "next_ftyp (bytes f) (pos f, n)")
    case None
    from nested_ftyp_stop [OF None] obtain f' where
      "nested_ftyp f n = (f', int (pos f), n)" and "bytes f' = bytes f"
      by blast
    with None show ?thesis
      by (auto simp: repeats_def)
  next
    case (Some b)
    obtain p1 n1 where b: "b = (p1, n1)"
      by (cases b)
    let ?f1 = "f\<lparr>pos := p1, eof := False\<rparr>"
    note st = nested_ftyp_step [OF Some [unfolded b]]
    from st(2,3) have "length (bytes ?f1) - pos ?f1 < length (bytes f) - pos f"
      by simp
    from less [OF this, of n1] obtain f' p' n' where
      r: "nested_ftyp ?f1 n1 = (f', int p', n')" "bytes f' = bytes f"
         "repeats (bytes f) (p1, n1) (p', n')" "next_ftyp (bytes f) (p', n') = None"
      by auto
    from r(3) Some b have "repeats (bytes f) (pos f, n) (p', n')"
      unfolding repeats_def by (auto intro: converse_rtranclp_into_rtranclp)
    with r st(1) show ?thesis
      by auto
  qed
qed

lemma nested_ftyp_bytes:
  assumes "nested_ftyp f n = (f', p, n')"
  shows "bytes f' = bytes f \<and> 0 \<le> p"
  using nested_ftyp_result [of f n] assms by auto

definition ftyp_ends :: "byte list \<Rightarrow> nat \<times> u32 \<Rightarrow> bool" where
  "ftyp_ends xs a \<longleftrightarrow>
     (case a of (p, n) \<Rightarrow>
        8 \<le> p \<and> atom_at xs (p - 8) fourcc_ftyp \<and> word_at xs (p - 8) = n + 8)"

lemma next_ftyp_ends: "next_ftyp xs a = Some b \<Longrightarrow> ftyp_ends xs b"
  by (cases a) (auto simp: next_ftyp_def ftyp_ends_def Let_def split: if_splits)

lemma repeats_ends: "repeats xs a b \<Longrightarrow> ftyp_ends xs a \<Longrightarrow> ftyp_ends xs b"
  unfolding repeats_def by (induction rule: rtranclp_induct) (auto dest: next_ftyp_ends)

lemma check_mdat_Type1:
  assumes "check_mdat f = Inr (Type1 f' S)"
  shows "bytes f' = bytes f \<and> \<not> eof f'"
  using assms
  by (auto simp: check_mdat_def fseek_set_nonneg
        split: option.splits prod.splits
        dest!: checkAtom_bytes nested_ftyp_bytes look_for_2_Type2 fseek_cur_bytes)

lemma detect_Type1:
  assumes "detect f = Inr (Type1 f' S)"
  shows "bytes f' = bytes f \<and> \<not> eof f'"
  using assms
  by (auto simp: detect_def split: sum.splits start.splits
        dest!: find_start_bytes skip_atom_bytes check_mdat_Type1)

text \<open>
  C1.  Whenever the detection settles on repair type 1 with the size \<open>ftypSize\<close> and the
  stream \<open>inputFID\<close>, the repaired file is: the four bytes of \<open>ftypSize\<close>, most
  significant first (read back as a big-endian word they give \<open>ftypSize\<close>), the four
  characters \<^verbatim>\<open>ftyp\<close>, and then every byte of the input from the position of
  \<open>inputFID\<close> to the end, unchanged.
\<close>

theorem doRepairType1_output:
  assumes "detect (fopen input) = Inr (Type1 inputFID ftypSize)"
  shows "main input stdin =
           Some (Inr (1, [ucast (drop_bit 24 ftypSize), ucast (drop_bit 16 ftypSize),
                          ucast (drop_bit 8 ftypSize), ucast ftypSize] @
                         [0x66, 0x74, 0x79, 0x70] @ drop (pos inputFID) input))
         \<and> be32 (ucast (drop_bit 24 ftypSize)) (ucast (drop_bit 16 ftypSize))
                (ucast (drop_bit 8 ftypSize)) (ucast ftypSize) = ftypSize"
proof -
  from detect_Type1 [OF assms] have "bytes inputFID = input" and "\<not> eof inputFID"
    by (simp_all add: fopen_def)
  then show ?thesis
    using assms by (simp add: main_def doRepairType1_def copy_rest_eq be32_bytes)
qed

text \<open>
  An input with the initial \<^verbatim>\<open>ftyp\<close> (size 8), an \<^verbatim>\<open>mdat\<close> header, a nested
  \<^verbatim>\<open>ftyp\<close> header of size \<open>0x01020304\<close> and three more bytes.
\<close>

definition file_type1 :: "byte list" where
  "file_type1 =
     [0, 0, 0, 8, 0x66, 0x74, 0x79, 0x70,
      0, 0, 0, 16, 0x6D, 0x64, 0x61, 0x74,
      1, 2, 3, 4, 0x66, 0x74, 0x79, 0x70,
      0xAA, 0xBB, 0xCC]"

lemmas eval_defs =
  fopen_def get4Bytes_Some get4Bytes_None get4Bytes_eof get1Byte_Some get1Byte_None
  checkAtom_unfold checkAtom_eof word_at_def be32_def ftell_def fseek_cur_def fseek_set_def
  fourcc_ftyp_def fourcc_moov_def fourcc_free_def fourcc_mdat_def
  find_start_def scan_start.simps skip_atom_def check_mdat_def nested_ftyp.simps
  look_for_2.simps detect_def

lemma file_type1_detect:
  "detect (fopen file_type1) = Inr (Type1 \<lparr>bytes = file_type1, pos = 24, eof = False\<rparr> 0x01020304)"
  by (simp add: file_type1_def eval_defs)

theorem doRepairType1_output_witness:
  "detect (fopen file_type1) = Inr (Type1 \<lparr>bytes = file_type1, pos = 24, eof = False\<rparr> 0x01020304)
   \<and> main file_type1 [] =
       Some (Inr (1, [1, 2, 3, 4, 0x66, 0x74, 0x79, 0x70, 0xAA, 0xBB, 0xCC]))"
  using doRepairType1_output [OF file_type1_detect, of "[]"] file_type1_detect
  by (simp add: file_type1_def)

subsection \<open>The atom probe\<close>

text \<open>
  C7.  On a stream whose end-of-file indicator is not set, \<^verbatim>\<open>checkAtom\<close> fails exactly
  when fewer than 8 bytes are left, or the tag read is not the expected one, or the size
  read is below 8.  When it succeeds it returns the size minus 8 and the stream is just
  past the 8 bytes of the header.  When it fails, the stream stays where the reads have
  left it: 8 bytes further, or at the end of the data when that comes first; the probe
  does not go back.
\<close>

theorem checkAtom_contract:
  assumes "\<not> eof fid"
  shows "(fst (checkAtom fid tag) = None \<longleftrightarrow>
            length (bytes fid) < pos fid + 8
            \<or> word_at (bytes fid) (pos fid + 4) \<noteq> tag
            \<or> word_at (bytes fid) (pos fid) < 8)
         \<and> (fst (checkAtom fid tag) \<noteq> None \<longrightarrow>
              checkAtom fid tag =
                (Some (word_at (bytes fid) (pos fid) - 8), fid\<lparr>pos := pos fid + 8\<rparr>))
         \<and> (fst (checkAtom fid tag) = None \<longrightarrow>
              pos (snd (checkAtom fid tag)) =
                (if pos fid + 8 \<le> length (bytes fid) then pos fid + 8
                 else max (pos fid) (length (bytes fid))))"
  using assms by (auto simp: checkAtom_unfold)

theorem checkAtom_contract_witness:
  "\<not> eof (fopen file_type1)
   \<and> checkAtom (fopen file_type1) fourcc_ftyp =
       (Some 0, \<lparr>bytes = file_type1, pos = 8, eof = False\<rparr>)
   \<and> fst (checkAtom (fopen file_type1) fourcc_mdat) = None
   \<and> pos (snd (checkAtom (fopen file_type1) fourcc_mdat)) = 8"
  using checkAtom_contract [of "fopen file_type1" fourcc_ftyp]
    checkAtom_contract [of "fopen file_type1" fourcc_mdat]
  by (simp add: file_type1_def fopen_def word_at_def be32_def fourcc_ftyp_def fourcc_mdat_def)

subsection \<open>The innermost nested \<^verbatim>\<open>ftyp\<close>\<close>

lemma check_mdat_nested:
  assumes "\<not> eof fid"
    and "atom_at (bytes fid) (pos fid) fourcc_mdat"
    and "atom_at (bytes fid) (pos fid + 8) fourcc_ftyp"
  shows "\<exists>p S. check_mdat fid = Inr (Type1 (fid\<lparr>pos := p, eof := False\<rparr>) S)
           \<and> repeats (bytes fid) (pos fid + 16, word_at (bytes fid) (pos fid + 8) - 8) (p, S - 8)
           \<and> next_ftyp (bytes fid) (p, S - 8) = None
           \<and> 8 \<le> p \<and> atom_at (bytes fid) (p - 8) fourcc_ftyp \<and> word_at (bytes fid) (p - 8) = S"
proof -
  let ?xs = "bytes fid"
  let ?n = "word_at ?xs (pos fid + 8) - 8"
  let ?f1 = "fid\<lparr>pos := pos fid + 8\<rparr>"
  let ?f2 = "fid\<lparr>pos := pos fid + 16\<rparr>"
  from assms have c1: "checkAtom fid fourcc_mdat = (Some (word_at ?xs (pos fid) - 8), ?f1)"
    by (simp add: checkAtom_atom)
  from assms have c2: "checkAtom ?f1 fourcc_ftyp = (Some ?n, ?f2)"
    using checkAtom_atom [of ?f1 fourcc_ftyp] by simp
  from nested_ftyp_result [of ?f2 ?n] obtain f' p n' where
    r: "nested_ftyp ?f2 ?n = (f', int p, n')" "bytes f' = ?xs"
       "repeats ?xs (pos fid + 16, ?n) (p, n')" "next_ftyp ?xs (p, n') = None"
    by auto
  have "f'\<lparr>pos := p, eof := False\<rparr> = fid\<lparr>pos := p, eof := False\<rparr>"
    using r(2) by (cases f'; cases fid) simp
  with c1 c2 r(1) have cm: "check_mdat fid = Inr (Type1 (fid\<lparr>pos := p, eof := False\<rparr>) (n' + 8))"
    by (simp add: check_mdat_def fseek_set_def)
  from assms(3) have "ftyp_ends ?xs (pos fid + 16, ?n)"
    by (simp add: ftyp_ends_def atom_at_def add.commute)
  from repeats_ends [OF r(3) this] have "ftyp_ends ?xs (p, n')" .
  with cm r(3,4) show ?thesis
    by (auto simp: ftyp_ends_def)
qed

text \<open>
  C5 (amended).  When \<^verbatim>\<open>mdat\<close> is followed by a nested \<^verbatim>\<open>ftyp\<close> header, the walk goes
  through as many repetitions of \<^verbatim>\<open>moov\<close>, \<^verbatim>\<open>mdat\<close>, \<^verbatim>\<open>ftyp\<close> as validate
  (\<open>repeats\<close>, up to where \<open>next_ftyp\<close> fails).  The repair then starts immediately after
  the \<^emph>\<open>last\<close> \<^verbatim>\<open>ftyp\<close> header that matched (the innermost one), and the size it uses
  is the size field of that same header.
\<close>

theorem nested_ftyp_innermost:
  assumes "\<not> eof fid"
    and "atom_at (bytes fid) (pos fid) fourcc_mdat"
    and "atom_at (bytes fid) (pos fid + 8) fourcc_ftyp"
  shows "\<exists>p S. check_mdat fid = Inr (Type1 (fid\<lparr>pos := p, eof := False\<rparr>) S)
           \<and> repeats (bytes fid) (pos fid + 16, word_at (bytes fid) (pos fid + 8) - 8) (p, S - 8)
           \<and> next_ftyp (bytes fid) (p, S - 8) = None
           \<and> 8 \<le> p \<and> atom_at (bytes fid) (p - 8) fourcc_ftyp \<and> word_at (bytes fid) (p - 8) = S"
  using check_mdat_nested [OF assms] .

text \<open>
  An input where the sequence is repeated once: \<^verbatim>\<open>ftyp\<close> at 0, \<^verbatim>\<open>mdat\<close> at 8, the
  first nested \<^verbatim>\<open>ftyp\<close> (size 8) at 16, then \<^verbatim>\<open>moov\<close> at 24, \<^verbatim>\<open>mdat\<close> at 32 and
  a second nested \<^verbatim>\<open>ftyp\<close> (size 12) at 40, followed by five bytes.
\<close>

definition file_nested :: "byte list" where
  "file_nested =
     [0, 0, 0, 8, 0x66, 0x74, 0x79, 0x70,
      0, 0, 0, 16, 0x6D, 0x64, 0x61, 0x74,
      0, 0, 0, 8, 0x66, 0x74, 0x79, 0x70,
      0, 0, 0, 8, 0x6D, 0x6F, 0x6F, 0x76,
      0, 0, 0, 9, 0x6D, 0x64, 0x61, 0x74,
      0, 0, 0, 12, 0x66, 0x74, 0x79, 0x70,
      1, 2, 3, 4, 5]"

theorem nested_ftyp_innermost_witness:
  "\<not> eof \<lparr>bytes = file_nested, pos = 8, eof = False\<rparr>
   \<and> atom_at file_nested 8 fourcc_mdat \<and> atom_at file_nested 16 fourcc_ftyp
   \<and> check_mdat \<lparr>bytes = file_nested, pos = 8, eof = False\<rparr> =
       Inr (Type1 \<lparr>bytes = file_nested, pos = 48, eof = False\<rparr> 12)
   \<and> next_ftyp file_nested (48, 4) = None
   \<and> word_at file_nested 40 = 12"
  using nested_ftyp_innermost [of "\<lparr>bytes = file_nested, pos = 8, eof = False\<rparr>"]
  by (simp add: file_nested_def atom_at_def word_at_def next_ftyp_def eval_defs)

text \<open>
  On this input the first nested \<^verbatim>\<open>ftyp\<close> header is matched at offset 16, which leaves
  the stream at 24; the repair starts at 48, after the second one, with its size 12.
\<close>

theorem nested_ftyp_first_match_counterexample:
  "checkAtom \<lparr>bytes = file_nested, pos = 16, eof = False\<rparr> fourcc_ftyp =
     (Some 0, \<lparr>bytes = file_nested, pos = 24, eof = False\<rparr>)
   \<and> detect (fopen file_nested) =
       Inr (Type1 \<lparr>bytes = file_nested, pos = 48, eof = False\<rparr> 12)
   \<and> main file_nested [] =
       Some (Inr (1, [0, 0, 0, 12, 0x66, 0x74, 0x79, 0x70, 1, 2, 3, 4, 5]))"
  by (simp add: file_nested_def eval_defs main_def doRepairType1_def copy_rest.simps)

subsection \<open>Repair type 2\<close>

lemma put_nal_eq: "put_nal out blob = out @ takeWhile (\<lambda>c. c \<noteq> 0xff) blob"
  by (induction blob arbitrary: out) auto

lemma SPS_1080p30_body: "takeWhile (\<lambda>c. c \<noteq> 0xff) SPS_1080p30 = butlast SPS_1080p30"
  by (simp add: SPS_1080p30_def)

lemma PPS_P2VP_body: "takeWhile (\<lambda>c. c \<noteq> 0xff) PPS_P2VP = butlast PPS_P2VP"
  by (simp add: PPS_P2VP_def)

lemma fgetc_eof: "eof f \<Longrightarrow> fgetc f = (None, f)"
  by (simp add: fgetc_def)

lemma copy_nal_eof: "eof f \<Longrightarrow> copy_nal n f out = (f, out @ replicate n 0xFF)"
  by (induction n arbitrary: out) (simp_all add: fgetc_eof replicate_app_Cons_same)

lemma copy_nal_eq:
  "\<not> eof f \<Longrightarrow>
   copy_nal n f out =
     (if n = 0 \<or> pos f + n \<le> length (bytes f) then f\<lparr>pos := pos f + n\<rparr>
      else f\<lparr>pos := max (pos f) (length (bytes f)), eof := True\<rparr>,
      out @ take n (drop (pos f) (bytes f)) @ replicate (n - (length (bytes f) - pos f)) 0xFF)"
proof (induction n arbitrary: f out)
  case 0
  then show ?case by simp
next
  case (Suc n)
  show ?case
  proof (cases "pos f < length (bytes f)")
    case True
    with Suc.prems have g: "fgetc f = (Some (bytes f ! pos f), f\<lparr>pos := pos f + 1\<rparr>)"
      by (simp add: fgetc_def)
    from True have d: "drop (pos f) (bytes f) = bytes f ! pos f # drop (Suc (pos f)) (bytes f)"
      by (simp add: Cons_nth_drop_Suc)
    from Suc.prems have "\<not> eof (f\<lparr>pos := pos f + 1\<rparr>)"
      by simp
    from Suc.IH [OF this] True show ?thesis
      by (simp add: g d Suc_diff_le max_def)
  next
    case False
    with Suc.prems have g: "fgetc f = (None, f\<lparr>eof := True\<rparr>)"
      by (simp add: fgetc_def)
    from False show ?thesis
      by (simp add: g copy_nal_eof replicate_app_Cons_same max_def)
  qed
qed

lemma restream_extends: "\<exists>r. restream f out n = out @ r"
proof (induction f out n rule: restream.induct)
  case (1 f out n)
  show ?case
  proof (cases "eof f")
    case True
    then show ?thesis by (subst restream.simps) simp
  next
    case False
    obtain f1 out1 where c: "copy_nal (unat n) f (putStartCode out) = (f1, out1)"
      by (cases "copy_nal (unat n) f (putStartCode out)")
    with False have o1: "\<exists>r. out1 = out @ r"
      by (auto simp: copy_nal_eq putStartCode_def)
    obtain w f2 where g: "get4Bytes f1 = (w, f2)"
      by (cases "get4Bytes f1")
    show ?thesis
    proof (cases w)
      case None
      with False c g o1 show ?thesis
        by (subst restream.simps) simp
    next
      case (Some m)
      show ?thesis
      proof (cases "m = 0 \<or> 0x00FFFFFF < m")
        case anomalous: True
        obtain w' f3 where s: "skip_anomalous f2 m = (w', f3)"
          by (cases "skip_anomalous f2 m")
        show ?thesis
        proof (cases w')
          case None
          with False c g Some anomalous s o1 show ?thesis
            by (subst restream.simps) auto
        next
          case (Some m')
          from "1.IH"(1) [OF False c [symmetric] g [symmetric] \<open>w = Some m\<close> anomalous s [symmetric] Some]
          obtain r where "restream f3 out1 m' = out1 @ r" by blast
          with False c g \<open>w = Some m\<close> anomalous s Some o1 show ?thesis
            by (subst restream.simps) auto
        qed
      next
        case sane: False
        from "1.IH"(2) [OF False c [symmetric] g [symmetric] \<open>w = Some m\<close> sane]
        obtain r where "restream f2 out1 m = out1 @ r" by blast
        with False c g Some sane o1 show ?thesis
          by (subst restream.simps) auto
      qed
    qed
  qed
qed

lemma restream_first:
  assumes "\<not> eof f"
  shows "\<exists>r. restream f out n =
           out @ [0, 0, 0, 1] @ take (unat n) (drop (pos f) (bytes f)) @
           replicate (unat n - (length (bytes f) - pos f)) 0xFF @ r"
proof -
  obtain f1 out1 where c: "copy_nal (unat n) f (putStartCode out) = (f1, out1)"
    by (cases "copy_nal (unat n) f (putStartCode out)")
  with assms have o1: "out1 = out @ [0, 0, 0, 1] @ take (unat n) (drop (pos f) (bytes f)) @
           replicate (unat n - (length (bytes f) - pos f)) 0xFF"
    by (auto simp: copy_nal_eq putStartCode_def)
  obtain w f2 where g: "get4Bytes f1 = (w, f2)"
    by (cases "get4Bytes f1")
  have "\<exists>r. restream f out n = out1 @ r"
  proof (cases w)
    case None
    with assms c g show ?thesis
      by (subst restream.simps) simp
  next
    case (Some m)
    obtain w' f3 where s: "skip_anomalous f2 m = (w', f3)"
      by (cases "skip_anomalous f2 m")
    from restream_extends [of f2 out1 m] obtain r2 where r2: "restream f2 out1 m = out1 @ r2"
      by blast
    show ?thesis
    proof (cases w')
      case None
      with assms c g Some s r2 show ?thesis
        by (subst restream.simps) auto
    next
      case (Some m')
      from restream_extends [of f3 out1 m'] obtain r3 where "restream f3 out1 m' = out1 @ r3"
        by blast
      with assms c g \<open>w = Some m\<close> s Some r2 show ?thesis
        by (subst restream.simps) auto
    qed
  qed
  with o1 show ?thesis by auto
qed


lemma get1Byte_Some_file:
  "get1Byte f = (Some c, f') \<Longrightarrow> bytes f' = bytes f \<and> \<not> eof f' \<and> pos f' = pos f + 1"
  using get1Byte_SomeD [of f c f'] by simp

lemma scan_start_Saw2:
  "\<not> eof f \<Longrightarrow> scan_start f a b s = Inr (Saw2 f' w r) \<Longrightarrow> bytes f' = bytes f \<and> \<not> eof f'"
proof (induction f a b s rule: scan_start.induct)
  case (1 f a b s)
  show ?case
    using "1.prems"(1) "1.prems"(2) [unfolded scan_start.simps [of f a b s]] "1.IH"
    by (auto split: if_splits option.splits prod.splits
             dest!: get4Bytes_Some_file get1Byte_Some_file)
qed

lemma find_start_Saw2:
  "find_start f = Inr (Saw2 f' w r) \<Longrightarrow> bytes f' = bytes f \<and> \<not> eof f'"
  by (auto simp: find_start_def split: option.splits prod.splits
           dest!: get4Bytes_Some_file scan_start_Saw2 [rotated])

lemma check_mdat_Type2:
  assumes "check_mdat f = Inr (Type2 f' w)"
  shows "bytes f' = bytes f \<and> \<not> eof f'"
  using assms
  by (auto simp: check_mdat_def
        split: option.splits prod.splits
        dest!: checkAtom_bytes look_for_2_Type2 fseek_cur_bytes)

lemma detect_Type2:
  assumes "detect f = Inr (Type2 f' w)"
  shows "bytes f' = bytes f \<and> \<not> eof f'"
  using assms
  by (auto simp: detect_def split: sum.splits start.splits
        dest!: find_start_bytes find_start_Saw2 skip_atom_bytes check_mdat_Type2)

lemma repair_type2_8_short:
  assumes "fst (get1Byte f) = None
           \<or> (\<exists>c f1. get1Byte f = (Some c, f1) \<and> fst (get1Byte f1) = None)"
  shows "repair_type2 f out 0x38 w =
           out @ [0, 0, 0, 1] @ butlast SPS_1080p30 @ [0, 0, 0, 1] @ butlast PPS_P2VP @
           [0, 0, 0, 1] @ [ucast (drop_bit 24 w), ucast (drop_bit 16 w)]"
  using assms
  by (auto simp: repair_type2_def select_format_def put_nal_eq putStartCode_def
      SPS_1080p30_body PPS_P2VP_body Let_def split: prod.splits option.splits)

lemma repair_type2_8_two:
  assumes "get1Byte f = (Some c1, f1)" and "get1Byte f1 = (Some c2, f2)"
  shows "repair_type2 f out 0x38 w =
           restream f2
             (out @ [0, 0, 0, 1] @ butlast SPS_1080p30 @ [0, 0, 0, 1] @ butlast PPS_P2VP @
              [0, 0, 0, 1] @ [ucast (drop_bit 24 w), ucast (drop_bit 16 w)])
             (push_bit 16 (w AND 0xFFFF) OR push_bit 8 (ucast c1) OR ucast c2)"
  using assms
  by (simp add: repair_type2_def select_format_def put_nal_eq putStartCode_def
      SPS_1080p30_body PPS_P2VP_body Let_def)

lemma restream_last:
  assumes "\<not> eof f" and "length (bytes f) - pos f < unat n + 4"
  shows "restream f out n =
           out @ [0, 0, 0, 1] @ take (unat n) (drop (pos f) (bytes f)) @
           replicate (unat n - (length (bytes f) - pos f)) 0xFF"
proof -
  obtain f1 out1 where c: "copy_nal (unat n) f (putStartCode out) = (f1, out1)"
    by (cases "copy_nal (unat n) f (putStartCode out)")
  with assms(1) have o1: "out1 = out @ [0, 0, 0, 1] @ take (unat n) (drop (pos f) (bytes f)) @
           replicate (unat n - (length (bytes f) - pos f)) 0xFF"
    and f1: "f1 = (if unat n = 0 \<or> pos f + unat n \<le> length (bytes f)
                   then f\<lparr>pos := pos f + unat n\<rparr>
                   else f\<lparr>pos := max (pos f) (length (bytes f)), eof := True\<rparr>)"
    by (auto simp: copy_nal_eq putStartCode_def)
  have "fst (get4Bytes f1) = None"
  proof (cases "unat n = 0 \<or> pos f + unat n \<le> length (bytes f)")
    case True
    with f1 assms have "\<not> eof f1" and "length (bytes f1) < pos f1 + 4"
      by auto
    then show ?thesis
      by (simp add: get4Bytes_None)
  next
    case False
    with f1 have "eof f1"
      by simp
    then show ?thesis
      by (simp add: get4Bytes_eof)
  qed
  then obtain f2 where "get4Bytes f1 = (None, f2)"
    by (cases "get4Bytes f1") auto
  with assms(1) c o1 show ?thesis
    by (subst restream.simps) simp
qed

text \<open>
  C2.  Whenever the detection settles on repair type 2 and the format code entered is
  \<^verbatim>\<open>8\<close>, the repaired file begins with a start code, the SPS of 1080p/30 without its
  terminator \<open>0xFF\<close>, a start code, the PPS of the Phantom 2 Vision+ without its
  terminator, a start code and the two high bytes of \<open>second4Bytes\<close>.  When fewer than
  two bytes are left in the input, nothing follows.  Otherwise the next two bytes
  \<open>c1\<close>, \<open>c2\<close> give the size \<open>((second4Bytes AND 0xFFFF) << 16) OR (c1 << 8) OR c2\<close> of
  the first NAL unit, and the repaired file is what the loop over the NAL units writes
  when it is entered with exactly this size: it goes on with a start code and that many
  bytes of the input (\<open>0xFF\<close> for each byte that the input does not have), and it ends
  there when fewer than 4 bytes follow the unit.
\<close>

theorem doRepairType2_format_8:
  assumes "detect (fopen input) = Inr (Type2 inputFID second4Bytes)"
    and "ask_format stdin = Some (0x38, stdin')"
  shows "\<exists>rest.
           main input stdin =
             Some (Inr (2, [0, 0, 0, 1] @ butlast SPS_1080p30 @ [0, 0, 0, 1] @ butlast PPS_P2VP @
                     [0, 0, 0, 1] @
                     [ucast (drop_bit 24 second4Bytes), ucast (drop_bit 16 second4Bytes)] @ rest))
           \<and> (length input < pos inputFID + 2 \<longrightarrow> rest = [])
           \<and> (pos inputFID + 2 \<le> length input \<longrightarrow>
                (let nalSize = push_bit 16 (second4Bytes AND 0xFFFF)
                                 OR push_bit 8 (ucast (input ! pos inputFID))
                                 OR ucast (input ! (pos inputFID + 1));
                     payload = drop (pos inputFID + 2) input;
                     unit = [0, 0, 0, 1] @ take (unat nalSize) payload @
                            replicate (unat nalSize - length payload) 0xFF
                 in main input stdin =
                      Some (Inr (2, restream (inputFID\<lparr>pos := pos inputFID + 2\<rparr>)
                                      ([0, 0, 0, 1] @ butlast SPS_1080p30 @ [0, 0, 0, 1] @
                                       butlast PPS_P2VP @ [0, 0, 0, 1] @
                                       [ucast (drop_bit 24 second4Bytes),
                                        ucast (drop_bit 16 second4Bytes)])
                                      nalSize))
                    \<and> prefix unit rest
                    \<and> (length payload < unat nalSize + 4 \<longrightarrow> rest = unit)))"
proof -
  let ?hdr = "[0, 0, 0, 1] @ butlast SPS_1080p30 @ [0, 0, 0, 1] @ butlast PPS_P2VP @
              [0, 0, 0, 1] @ [ucast (drop_bit 24 second4Bytes), ucast (drop_bit 16 second4Bytes)]"
  from detect_Type2 [OF assms(1)] have b: "bytes inputFID = input" and e: "\<not> eof inputFID"
    by (simp_all add: fopen_def)
  have m: "main input stdin = Some (Inr (2, repair_type2 inputFID [] 0x38 second4Bytes))"
    using assms by (simp add: main_def doRepairType2_def)
  show ?thesis
  proof (cases "pos inputFID + 2 \<le> length input")
    case False
    have "fst (get1Byte inputFID) = None
          \<or> (\<exists>c f1. get1Byte inputFID = (Some c, f1) \<and> fst (get1Byte f1) = None)"
    proof (cases "pos inputFID < length input")
      case True
      with e b False show ?thesis
        by (simp add: get1Byte_Some get1Byte_None)
    next
      case False
      with b show ?thesis
        by (simp add: get1Byte_None)
    qed
    then have "repair_type2 inputFID [] 0x38 second4Bytes = ?hdr"
      by (simp add: repair_type2_8_short)
    with m False show ?thesis
      by simp
  next
    case True
    let ?f2 = "inputFID\<lparr>pos := pos inputFID + 2\<rparr>"
    let ?n = "push_bit 16 (second4Bytes AND 0xFFFF) OR push_bit 8 (ucast (input ! pos inputFID))
                OR ucast (input ! (pos inputFID + 1))"
    let ?payload = "drop (pos inputFID + 2) input"
    let ?unit = "[0, 0, 0, 1] @ take (unat ?n) ?payload @ replicate (unat ?n - length ?payload) 0xFF"
    from True e b
    have "get1Byte inputFID = (Some (input ! pos inputFID), inputFID\<lparr>pos := pos inputFID + 1\<rparr>)"
      and "get1Byte (inputFID\<lparr>pos := pos inputFID + 1\<rparr>) = (Some (input ! (pos inputFID + 1)), ?f2)"
      by (simp_all add: get1Byte_Some)
    from repair_type2_8_two [OF this]
    have r2: "repair_type2 inputFID [] 0x38 second4Bytes = restream ?f2 ?hdr ?n"
      by simp
    from e have e2: "\<not> eof ?f2"
      by simp
    from restream_first [OF e2, of ?hdr ?n] b obtain r where
      r: "restream ?f2 ?hdr ?n = ?hdr @ ?unit @ r"
      by auto
    have last: "r = []" if "length ?payload < unat ?n + 4"
    proof -
      from that b have "length (bytes ?f2) - pos ?f2 < unat ?n + 4"
        by simp
      from restream_last [OF e2 this, of ?hdr] b have "restream ?f2 ?hdr ?n = ?hdr @ ?unit"
        by simp
      with r show ?thesis
        by simp
    qed
    have 1: "main input stdin = Some (Inr (2, ?hdr @ (?unit @ r)))"
      using m r2 r by simp
    have 2: "main input stdin = Some (Inr (2, restream ?f2 ?hdr ?n))"
      using m r2 by simp
    have 3: "prefix ?unit (?unit @ r)"
      by simp
    have 4: "length ?payload < unat ?n + 4 \<longrightarrow> ?unit @ r = ?unit"
      using last by simp
    have 5: "\<not> length input < pos inputFID + 2"
      using True by simp
    show ?thesis
      unfolding Let_def
      by (rule exI [of _ "?unit @ r"]) (use 1 2 3 4 5 in simp)
  qed
qed

text \<open>
  An input that starts with \<^verbatim>\<open>0x00000002\<close>: the two bytes \<open>09 10\<close> of the first NAL
  unit, a NAL unit of 3 bytes and a NAL unit of 1 byte.
\<close>

definition file_type2 :: "byte list" where
  "file_type2 =
     [0, 0, 0, 2, 0x09, 0x10, 0, 0,
      0, 3, 0xA1, 0xA2, 0xA3,
      0, 0, 0, 1, 0xB1]"

lemma file_type2_detect:
  "detect (fopen file_type2) = Inr (Type2 \<lparr>bytes = file_type2, pos = 8, eof = False\<rparr> 0x09100000)"
  by (simp add: file_type2_def eval_defs)

lemma file_type2_repair_8:
  "repair_type2 \<lparr>bytes = file_type2, pos = 8, eof = False\<rparr> [] 0x38 0x09100000 =
     [0, 0, 0, 1] @ butlast SPS_1080p30 @ [0, 0, 0, 1] @ butlast PPS_P2VP @
     [0, 0, 0, 1, 0x09, 0x10, 0, 0, 0, 1, 0xA1, 0xA2, 0xA3, 0, 0, 0, 1, 0xB1]"
  by code_simp

lemma ask_format_8: "ask_format [0x38] = Some (0x38, [])"
  by (simp add: ask_format_valid)

lemma file_type2_main:
  "main file_type2 [0x38] =
     Some (Inr (2, [0, 0, 0, 1] @ butlast SPS_1080p30 @ [0, 0, 0, 1] @ butlast PPS_P2VP @
             [0, 0, 0, 1, 0x09, 0x10, 0, 0, 0, 1, 0xA1, 0xA2, 0xA3, 0, 0, 0, 1, 0xB1]))"
  by (simp add: main_def doRepairType2_def file_type2_detect ask_format_8 file_type2_repair_8)

theorem doRepairType2_format_8_witness:
  "detect (fopen file_type2) = Inr (Type2 \<lparr>bytes = file_type2, pos = 8, eof = False\<rparr> 0x09100000)
   \<and> ask_format [0x38] = Some (0x38, [])
   \<and> main file_type2 [0x38] =
     Some (Inr (2, [0, 0, 0, 1] @ butlast SPS_1080p30 @ [0, 0, 0, 1] @ butlast PPS_P2VP @
             [0, 0, 0, 1, 0x09, 0x10, 0, 0, 0, 1, 0xA1, 0xA2, 0xA3, 0, 0, 0, 1, 0xB1]))"
  using doRepairType2_format_8 [OF file_type2_detect ask_format_8] file_type2_detect
    ask_format_8 file_type2_main
  by simp

subsection \<open>The question for the video format\<close>







subsection \<open>Recovery from an anomalous NAL size\<close>

text \<open>The value of \<^verbatim>\<open>nalSize\<close> after the bytes \<open>cs\<close> have been shifted in.\<close>

definition shifted_in :: "u32 \<Rightarrow> byte list \<Rightarrow> u32" where
  "shifted_in nalSize cs = foldl (\<lambda>a c. push_bit 8 a OR ucast c) nalSize cs"

lemma skip_anomalous_found:
  "\<not> eof f \<Longrightarrow> 1 \<le> k \<Longrightarrow> pos f + k \<le> length (bytes f) \<Longrightarrow>
   shifted_in n (take k (drop (pos f) (bytes f))) = 2 \<Longrightarrow>
   (\<forall>j. 1 \<le> j \<and> j < k \<longrightarrow> shifted_in n (take j (drop (pos f) (bytes f))) \<noteq> 2) \<Longrightarrow>
   skip_anomalous f n = (Some 2, f\<lparr>pos := pos f + k\<rparr>)"
proof (induction k arbitrary: f n)
  case 0
  then show ?case by simp
next
  case (Suc k)
  let ?c = "bytes f ! pos f"
  let ?f1 = "f\<lparr>pos := pos f + 1\<rparr>"
  let ?n1 = "push_bit 8 n OR ucast ?c"
  from Suc.prems have g: "get1Byte f = (Some ?c, ?f1)"
    by (simp add: get1Byte_Some)
  from Suc.prems have d: "drop (pos f) (bytes f) = ?c # drop (pos ?f1) (bytes ?f1)"
    by (simp add: Cons_nth_drop_Suc)
  have sh: "shifted_in n (take (Suc j) (drop (pos f) (bytes f))) =
            shifted_in ?n1 (take j (drop (pos ?f1) (bytes ?f1)))" for j
    by (simp add: d shifted_in_def)
  show ?case
  proof (cases k)
    case 0
    with Suc.prems(4) have "?n1 = 2"
      by (simp add: d shifted_in_def)
    with g 0 show ?thesis
      by (subst skip_anomalous.simps) (simp add: Let_def)
  next
    case (Suc k')
    from Suc.prems(5) [rule_format, of 1] Suc have ne: "?n1 \<noteq> 2"
      by (simp add: d shifted_in_def)
    have "skip_anomalous ?f1 ?n1 = (Some 2, ?f1\<lparr>pos := pos ?f1 + k\<rparr>)"
    proof (rule Suc.IH)
      show "\<not> eof ?f1" using Suc.prems(1) by simp
      show "1 \<le> k" using Suc by simp
      show "pos ?f1 + k \<le> length (bytes ?f1)" using Suc.prems(3) by simp
      show "shifted_in ?n1 (take k (drop (pos ?f1) (bytes ?f1))) = 2"
        using Suc.prems(4) sh [of k] by simp
      show "\<forall>j. 1 \<le> j \<and> j < k \<longrightarrow> shifted_in ?n1 (take j (drop (pos ?f1) (bytes ?f1))) \<noteq> 2"
      proof (intro allI impI)
        fix j assume "1 \<le> j \<and> j < k"
        with Suc.prems(5) [rule_format, of "Suc j"] sh [of j] show
          "shifted_in ?n1 (take j (drop (pos ?f1) (bytes ?f1))) \<noteq> 2"
          by simp
      qed
    qed
    with g ne show ?thesis
      by (subst skip_anomalous.simps) (simp add: Let_def)
  qed
qed

lemma skip_anomalous_not_found:
  "\<not> eof f \<Longrightarrow>
   (\<forall>j. 1 \<le> j \<and> j \<le> length (bytes f) - pos f \<longrightarrow>
        shifted_in n (take j (drop (pos f) (bytes f))) \<noteq> 2) \<Longrightarrow>
   fst (skip_anomalous f n) = None"
proof (induction "length (bytes f) - pos f" arbitrary: f n)
  case 0
  then have "get1Byte f = (None, f\<lparr>eof := True\<rparr>)"
    by (simp add: get1Byte_None)
  then show ?case
    by (subst skip_anomalous.simps) simp
next
  case (Suc m)
  let ?c = "bytes f ! pos f"
  let ?f1 = "f\<lparr>pos := pos f + 1\<rparr>"
  let ?n1 = "push_bit 8 n OR ucast ?c"
  from Suc.hyps(2) have lt: "pos f < length (bytes f)"
    by simp
  with Suc.prems have g: "get1Byte f = (Some ?c, ?f1)"
    by (simp add: get1Byte_Some)
  from lt have d: "drop (pos f) (bytes f) = ?c # drop (pos ?f1) (bytes ?f1)"
    by (simp add: Cons_nth_drop_Suc)
  have sh: "shifted_in n (take (Suc j) (drop (pos f) (bytes f))) =
            shifted_in ?n1 (take j (drop (pos ?f1) (bytes ?f1)))" for j
    by (simp add: d shifted_in_def)
  from Suc.prems(2) [rule_format, of 1] lt have ne: "?n1 \<noteq> 2"
    by (simp add: d shifted_in_def)
  have "fst (skip_anomalous ?f1 ?n1) = None"
  proof (rule Suc.hyps(1))
    show "m = length (bytes ?f1) - pos ?f1" using Suc.hyps(2) by simp
    show "\<not> eof ?f1" using Suc.prems(1) by simp
    show "\<forall>j. 1 \<le> j \<and> j \<le> length (bytes ?f1) - pos ?f1 \<longrightarrow>
            shifted_in ?n1 (take j (drop (pos ?f1) (bytes ?f1))) \<noteq> 2"
    proof (intro allI impI)
      fix j assume "1 \<le> j \<and> j \<le> length (bytes ?f1) - pos ?f1"
      with lt have "1 \<le> Suc j \<and> Suc j \<le> length (bytes f) - pos f"
        by auto
      with Suc.prems(2) [rule_format, of "Suc j"] sh [of j] show
        "shifted_in ?n1 (take j (drop (pos ?f1) (bytes ?f1))) \<noteq> 2"
        by simp
    qed
  qed
  with g ne show ?case
    by (subst skip_anomalous.simps) (simp add: Let_def)
qed


text \<open>
  C4.  In the loop over the NAL units, let the 4-byte size \<open>n\<close> just read be 0 or larger
  than \<open>0x00FFFFFF\<close>.  The bytes that follow are shifted into \<open>n\<close> one at a time
  (\<open>shifted_in\<close>).  If \<open>k\<close> is the first number of bytes, at least one, after which the
  value is exactly 2, the skipping stops after exactly these \<open>k\<close> bytes and the loop goes
  on from there with the size 2.  If the value is never 2 before the input ends, the
  repair ends with what has been written so far.
\<close>

theorem restream_anomaly:
  assumes "\<not> eof inputFID"
    and "copy_nal (unat nalSize) inputFID (putStartCode outputFID) = (f1, out1)"
    and "get4Bytes f1 = (Some n, f2)"
    and "n = 0 \<or> 0x00FFFFFF < n"
  shows "(\<forall>k. 1 \<le> k \<and> k \<le> length (bytes f2) - pos f2
              \<and> shifted_in n (take k (drop (pos f2) (bytes f2))) = 2
              \<and> (\<forall>j. 1 \<le> j \<and> j < k \<longrightarrow>
                     shifted_in n (take j (drop (pos f2) (bytes f2))) \<noteq> 2) \<longrightarrow>
              skip_anomalous f2 n = (Some 2, f2\<lparr>pos := pos f2 + k\<rparr>)
              \<and> restream inputFID outputFID nalSize = restream (f2\<lparr>pos := pos f2 + k\<rparr>) out1 2)
         \<and> ((\<forall>j. 1 \<le> j \<and> j \<le> length (bytes f2) - pos f2 \<longrightarrow>
                  shifted_in n (take j (drop (pos f2) (bytes f2))) \<noteq> 2) \<longrightarrow>
              fst (skip_anomalous f2 n) = None
              \<and> restream inputFID outputFID nalSize = out1)"
proof -
  from get4Bytes_SomeD [OF assms(3)] have e2: "\<not> eof f2" and l2: "pos f2 \<le> length (bytes f2)"
    by simp_all
  have r: "restream inputFID outputFID nalSize =
             (case skip_anomalous f2 n of (None, _) \<Rightarrow> out1
              | (Some nalSize'', f3) \<Rightarrow> restream f3 out1 nalSize'')"
    using assms by (subst restream.simps) simp
  have found: "skip_anomalous f2 n = (Some 2, f2\<lparr>pos := pos f2 + k\<rparr>)
               \<and> restream inputFID outputFID nalSize = restream (f2\<lparr>pos := pos f2 + k\<rparr>) out1 2"
    if "1 \<le> k" and "k \<le> length (bytes f2) - pos f2"
      and "shifted_in n (take k (drop (pos f2) (bytes f2))) = 2"
      and "\<forall>j. 1 \<le> j \<and> j < k \<longrightarrow> shifted_in n (take j (drop (pos f2) (bytes f2))) \<noteq> 2"
    for k
  proof -
    from that(2) l2 have "pos f2 + k \<le> length (bytes f2)"
      by simp
    from skip_anomalous_found [OF e2 that(1) this that(3,4)] show ?thesis
      by (simp add: r)
  qed
  have not_found: "fst (skip_anomalous f2 n) = None \<and> restream inputFID outputFID nalSize = out1"
    if "\<forall>j. 1 \<le> j \<and> j \<le> length (bytes f2) - pos f2 \<longrightarrow>
          shifted_in n (take j (drop (pos f2) (bytes f2))) \<noteq> 2"
  proof -
    from skip_anomalous_not_found [OF e2 that] have "fst (skip_anomalous f2 n) = None" .
    then show ?thesis
      by (cases "skip_anomalous f2 n") (simp add: r)
  qed
  from found not_found show ?thesis
    by blast
qed

text \<open>
  A stream with a NAL unit of 1 byte, the size 0, then \<open>09 00 00 00 02\<close> and two more
  bytes: the value is 2 after five bytes, when the \<open>09\<close> has been shifted out.
\<close>

definition anomalous_stream :: FILE where
  "anomalous_stream =
     \<lparr>bytes = [0xAA, 0, 0, 0, 0, 0x09, 0, 0, 0, 2, 0xC1, 0xC2], pos = 0, eof = False\<rparr>"

theorem restream_anomaly_witness:
  "skip_anomalous (anomalous_stream\<lparr>pos := 5\<rparr>) 0 = (Some 2, anomalous_stream\<lparr>pos := 10\<rparr>)
   \<and> restream anomalous_stream [] 1 =
       restream (anomalous_stream\<lparr>pos := 10\<rparr>) [0, 0, 0, 1, 0xAA] 2
   \<and> restream anomalous_stream [] 1 = [0, 0, 0, 1, 0xAA, 0, 0, 0, 1, 0xC1, 0xC2]"
proof -
  let ?f2 = "anomalous_stream\<lparr>pos := 5\<rparr>"
  have h1: "\<not> eof anomalous_stream"
    by (simp add: anomalous_stream_def)
  have h2: "copy_nal (unat (1::u32)) anomalous_stream (putStartCode []) =
              (anomalous_stream\<lparr>pos := 1\<rparr>, [0, 0, 0, 1, 0xAA])"
    by (simp add: anomalous_stream_def putStartCode_def fgetc_def)
  have h3: "get4Bytes (anomalous_stream\<lparr>pos := 1\<rparr>) = (Some 0, ?f2)"
    by (simp add: anomalous_stream_def get4Bytes_def get1Byte_def fgetc_def be32_def)
  have h4: "(0::u32) = 0 \<or> 0x00FFFFFF < (0::u32)"
    by simp
  have k: "1 \<le> (5::nat) \<and> 5 \<le> length (bytes ?f2) - pos ?f2
           \<and> shifted_in 0 (take 5 (drop (pos ?f2) (bytes ?f2))) = 2
           \<and> (\<forall>j. 1 \<le> j \<and> j < 5 \<longrightarrow> shifted_in 0 (take j (drop (pos ?f2) (bytes ?f2))) \<noteq> 2)"
  proof -
    have c: "j = 1 \<or> j = 2 \<or> j = 3 \<or> j = 4" if "1 \<le> j \<and> j < 5" for j :: nat
      using that by auto
    have v: "shifted_in 0 (take j (drop (pos ?f2) (bytes ?f2))) \<noteq> 2"
      if "j = 1 \<or> j = 2 \<or> j = 3 \<or> j = 4" for j :: nat
      using that by (auto simp: anomalous_stream_def shifted_in_def)
    show ?thesis
    proof (intro conjI allI impI)
      show "1 \<le> (5::nat)"
        by simp
      show "5 \<le> length (bytes ?f2) - pos ?f2"
        by (simp add: anomalous_stream_def)
      show "shifted_in 0 (take 5 (drop (pos ?f2) (bytes ?f2))) = 2"
        by (simp add: anomalous_stream_def shifted_in_def)
      fix j :: nat
      assume "1 \<le> j \<and> j < 5"
      from v [OF c [OF this]] show "shifted_in 0 (take j (drop (pos ?f2) (bytes ?f2))) \<noteq> 2" .
    qed
  qed
  from restream_anomaly [OF h1 h2 h3 h4] k
  have "skip_anomalous ?f2 0 = (Some 2, ?f2\<lparr>pos := pos ?f2 + 5\<rparr>)
        \<and> restream anomalous_stream [] 1 = restream (?f2\<lparr>pos := pos ?f2 + 5\<rparr>) [0, 0, 0, 1, 0xAA] 2"
    by blast
  moreover have "restream (anomalous_stream\<lparr>pos := 10\<rparr>) [0, 0, 0, 1, 0xAA] 2 =
                   [0, 0, 0, 1, 0xAA, 0, 0, 0, 1, 0xC1, 0xC2]"
    by code_simp
  ultimately show ?thesis
    by (simp add: anomalous_stream_def)
qed

subsection \<open>The end of the input inside a NAL unit\<close>

text \<open>
  An input that starts with \<^verbatim>\<open>0x00000002\<close> and the two bytes \<open>09 10\<close>; the next NAL unit
  announces 5 bytes and the input ends after 2 of them.
\<close>

definition file_truncated :: "byte list" where
  "file_truncated =
     [0, 0, 0, 2, 0x09, 0x10, 0, 0,
      0, 5, 0xA1, 0xA2]"

text \<open>
  C6.  The copying loop writes the result of \<^verbatim>\<open>fgetc\<close> without looking at it, so at the
  end of the input it writes \<open>0xFF\<close> for every byte that is missing: here three bytes
  \<open>0xFF\<close> follow the two bytes that were read.  The repair then ends at the next read
  of a size.
\<close>

lemma file_truncated_detect:
  "detect (fopen file_truncated) =
     Inr (Type2 \<lparr>bytes = file_truncated, pos = 8, eof = False\<rparr> 0x09100000)"
  by (simp add: file_truncated_def eval_defs)

lemma file_truncated_repair:
  "repair_type2 \<lparr>bytes = file_truncated, pos = 8, eof = False\<rparr> [] 0x38 0x09100000 =
     [0, 0, 0, 1] @ butlast SPS_1080p30 @ [0, 0, 0, 1] @ butlast PPS_P2VP @
     [0, 0, 0, 1, 0x09, 0x10, 0, 0, 0, 1, 0xA1, 0xA2, 0xFF, 0xFF, 0xFF]"
  by code_simp

theorem copy_nal_pads_at_eof:
  "main file_truncated [0x38] =
     Some (Inr (2, [0, 0, 0, 1] @ butlast SPS_1080p30 @ [0, 0, 0, 1] @ butlast PPS_P2VP @
             [0, 0, 0, 1, 0x09, 0x10, 0, 0, 0, 1, 0xA1, 0xA2, 0xFF, 0xFF, 0xFF]))"
  by (simp add: main_def doRepairType2_def file_truncated_detect ask_format_8
      file_truncated_repair)

subsection \<open>The search for \<^verbatim>\<open>0x00000002\<close> after the atoms\<close>

text \<open>
  Two inputs with \<^verbatim>\<open>ftyp\<close> and \<^verbatim>\<open>mdat\<close> headers and no nested \<^verbatim>\<open>ftyp\<close>, so that
  the search starts at offset 16.  In the first, \<^verbatim>\<open>0x00000002\<close> is at offset 20, one
  word after the start of the search; in the second it is at offset 28, three words
  after it.
\<close>

definition file_marker_at_20 :: "byte list" where
  "file_marker_at_20 =
     [0, 0, 0, 8, 0x66, 0x74, 0x79, 0x70,
      0, 0, 0, 16, 0x6D, 0x64, 0x61, 0x74,
      0, 0, 0, 1, 0, 0, 0, 2, 0x09, 0x10, 0, 0,
      0, 1, 0xA1, 0, 0, 0, 1, 0xB1, 7, 7, 7, 7]"

definition file_marker_at_28 :: "byte list" where
  "file_marker_at_28 =
     [0, 0, 0, 8, 0x66, 0x74, 0x79, 0x70,
      0, 0, 0, 16, 0x6D, 0x64, 0x61, 0x74,
      0, 0, 0, 1, 0, 0, 0, 3, 7, 7, 7, 7,
      0, 0, 0, 2, 0x09, 0x10, 0, 0]"

text \<open>
  C10.  Each iteration of the search reads \<open>first4Bytes\<close> and \<open>next4Bytes\<close> anew and, when
  \<open>first4Bytes\<close> is not 2, one more word: it looks at one word in three.  The marker at
  offset 20 is aligned with the start of the search and is not found; the one at offset
  28 is found.
\<close>

theorem look_for_2_steps_by_12:
  "word_at file_marker_at_20 20 = 2
   \<and> detect (fopen file_marker_at_20) = Inl NoMarker
   \<and> main file_marker_at_20 [0x38] = Some (Inl NoMarker)
   \<and> word_at file_marker_at_28 28 = 2
   \<and> detect (fopen file_marker_at_28) =
       Inr (Type2 \<lparr>bytes = file_marker_at_28, pos = 36, eof = False\<rparr> 0x09100000)"
  by (simp add: file_marker_at_20_def file_marker_at_28_def eval_defs main_def word_at_def)

subsection \<open>The first loop: which windows are examined\<close>























text \<open>
  The position printed for \<^verbatim>\<open>ftyp\<close> is taken after the stream has been moved to the end
  of the atom: for an \<^verbatim>\<open>ftyp\<close> atom of size 24 at offset 3 it is \<open>3 + 24 - 8 = 19\<close>.
\<close>

lemma ftyp_position_printed:
  "find_start (fopen [9, 9, 9, 0, 0, 0, 24, 0x66, 0x74, 0x79, 0x70, 1, 1, 1, 1]) =
     Inr (SawFtyp \<lparr>bytes = [9, 9, 9, 0, 0, 0, 24, 0x66, 0x74, 0x79, 0x70, 1, 1, 1, 1],
                   pos = 27, eof = False\<rparr> (Some 19))"
  by code_simp

subsection \<open>Zero filler before the initial \<^verbatim>\<open>ftyp\<close>\<close>










end
